theory Spec2Isabelle
  imports Main
begin

section \<open>JavaScript strings and collections\<close>

text \<open>
  Strings are modelled as \<open>string\<close> (lists of 8-bit characters) and read as ASCII text.
  \<open>String.prototype.trim\<close> removes the ASCII white space and line terminators (space,
  TAB, LF, VT, FF, CR) from both ends; \<open>toLowerCase\<close> maps \<open>A\<close>..\<open>Z\<close> to
  \<open>a\<close>..\<open>z\<close> and leaves every other character alone. The Unicode white space and case
  mappings of JavaScript beyond ASCII are outside the model.

  A value that JavaScript may leave \<open>undefined\<close> or \<open>null\<close> is an \<open>option\<close>.
  A string is truthy when it is present and not empty.
\<close>

definition isWhiteSpace :: "char \<Rightarrow> bool" where
  "isWhiteSpace c \<longleftrightarrow>
     c \<in> set [CHR '' '', CHR 0x09, CHR 0x0A, CHR 0x0B, CHR 0x0C, CHR 0x0D]"

definition trim :: "string \<Rightarrow> string" where
  "trim s = rev (dropWhile isWhiteSpace (rev (dropWhile isWhiteSpace s)))"

definition toLowerChar :: "char \<Rightarrow> char" where
  "toLowerChar c =
     (case map_of (zip ''ABCDEFGHIJKLMNOPQRSTUVWXYZ'' ''abcdefghijklmnopqrstuvwxyz'') c of
        Some d \<Rightarrow> d
      | None \<Rightarrow> c)"

definition toLowerCase :: "string \<Rightarrow> string" where
  "toLowerCase s = map toLowerChar s"

text \<open>\<open>parts.join(sep)\<close>.\<close>

fun join :: "string \<Rightarrow> string list \<Rightarrow> string" where
  "join sep [] = []"
| "join sep [p] = p"
| "join sep (p # q # ps) = p @ sep @ join sep (q # ps)"

text \<open>Truthiness of an optional string: \<open>undefined\<close>, \<open>null\<close> and \<open>""\<close> are falsy.\<close>

fun truthy :: "string option \<Rightarrow> bool" where
  "truthy None = False"
| "truthy (Some s) = (s \<noteq> [])"

text \<open>\<open>a || b\<close> on optional strings.\<close>

definition orElse :: "string option \<Rightarrow> string option \<Rightarrow> string option" where
  "orElse a b = (if truthy a then a else b)"

text \<open>
  \<open>Array.from(new Set(xs))\<close>: a JavaScript \<open>Set\<close> iterates in insertion order, so the
  result keeps the first occurrence of every element. \<open>setAdd\<close> is \<open>Set.prototype.add\<close>
  on that representation.
\<close>

definition setAdd :: "'a list \<Rightarrow> 'a \<Rightarrow> 'a list" where
  "setAdd s x = (if x \<in> set s then s else s @ [x])"

definition arrayFromSet :: "'a list \<Rightarrow> 'a list" where
  "arrayFromSet xs = foldl setAdd [] xs"

section \<open>lib/map.ts: variant keys\<close>

record VariantOptionValue =
  ov_optionName :: "string option"
  ov_name :: string

definition DEFAULT_OPTION_NAME :: string where
  "DEFAULT_OPTION_NAME = ''Title''"

definition DEFAULT_OPTION_VALUE :: string where
  "DEFAULT_OPTION_VALUE = ''Default Title''"

definition MAX_SHOPIFY_VARIANTS :: nat where
  "MAX_SHOPIFY_VARIANTS = 100"

definition fallbackOptionValue :: "string \<Rightarrow> string" where
  "fallbackOptionValue optionName =
     (if optionName = DEFAULT_OPTION_NAME then DEFAULT_OPTION_VALUE else ''Default'')"

text \<open>\<open>(value || "").trim().toLowerCase()\<close>\<close>

definition normalizeKeyPart :: "string option \<Rightarrow> string" where
  "normalizeKeyPart v = toLowerCase (trim (case orElse v (Some []) of Some s \<Rightarrow> s | None \<Rightarrow> []))"

definition keyPart :: "VariantOptionValue \<Rightarrow> string" where
  "keyPart opt =
     normalizeKeyPart (orElse (ov_optionName opt) (Some DEFAULT_OPTION_NAME))
       @ ''='' @ normalizeKeyPart (Some (ov_name opt))"

definition buildVariantKey :: "VariantOptionValue list \<Rightarrow> string option \<Rightarrow> string" where
  "buildVariantKey optionValues sku =
     (let parts = map keyPart optionValues;
          parts = (if truthy sku then parts @ [''sku='' @ normalizeKeyPart sku] else parts)
      in join ''|'' parts)"

section \<open>lib/map.ts: from the canonical product to the Shopify payload\<close>

text \<open>
  The argument of \<open>buildShopifyProductInputFromEbay\<close>. \<open>options\<close> is a
  \<open>Record<string, string>\<close>, modelled as the finite map of the object's own properties;
  a lookup of a name that the object inherits from \<open>Object.prototype\<close> (an axis called
  \<open>constructor\<close> or \<open>toString\<close>) is outside the model.
  The callers pass values built from untyped JSON, so \<open>sku\<close> may be \<open>undefined\<close>.
\<close>

record CanonicalVariant =
  v_sku :: "string option"
  v_price :: string
  v_currencyCode :: string
  v_options :: "string \<rightharpoonup> string"
  v_imageUrl :: "string option"
  v_imageUrls :: "string list option"

record CanonicalProduct =
  p_title :: string
  p_description :: "string option"
  p_imageUrls :: "string list"
  p_tags :: "string list"
  p_vendor :: "string option"
  p_variants :: "CanonicalVariant list"
  p_optionsOrder :: "string list"

text \<open>The result type \<open>ShopifyProductPayload\<close>.\<close>

datatype ProductStatus = ACTIVE | DRAFT

datatype InventoryPolicy = DENY | CONTINUE

record ProductOptionValue =
  pov_name :: string

record ProductOption =
  po_name :: string
  po_position :: nat
  po_values :: "ProductOptionValue list"

record ProductInput =
  pi_title :: string
  pi_descriptionHtml :: string
  pi_vendor :: "string option"
  pi_tags :: "string list"
  pi_status :: ProductStatus
  pi_productOptions :: "ProductOption list"

record InventoryItem =
  ii_sku :: "string option"

record VariantInput =
  vi_price :: string
  vi_inventoryPolicy :: InventoryPolicy
  vi_inventoryItem :: InventoryItem
  vi_optionValues :: "VariantOptionValue list"
  vi_mediaSrc :: "string list option"

record VariantAsset =
  va_key :: string
  va_imageUrls :: "string list"

record PayloadMeta =
  droppedVariants :: nat

record ShopifyProductPayload =
  productInput :: ProductInput
  variantInputs :: "VariantInput list"
  variantAssets :: "VariantAsset list"
  meta :: "PayloadMeta option"

text \<open>An element of the local array \<open>rawVariantPayloads\<close>.\<close>

record RawVariantPayload =
  rp_key :: string
  rp_input :: VariantInput
  rp_imageUrls :: "string list"

definition uniqueTags :: "CanonicalProduct \<Rightarrow> string list" where
  "uniqueTags p = arrayFromSet (filter (\<lambda>tag. tag \<noteq> []) (map trim (p_tags p)))"

text \<open>One element of \<open>inferredOptions\<close>: the callback of \<open>optionsOrder.map\<close>.\<close>

definition inferredOption :: "CanonicalVariant list \<Rightarrow> string \<Rightarrow> nat \<Rightarrow> ProductOption" where
  "inferredOption variants name index =
     (let values = arrayFromSet [value. Some value \<leftarrow> map (\<lambda>v. v_options v name) variants, value \<noteq> []];
          values = (if values = [] then setAdd values (fallbackOptionValue name) else values)
      in \<lparr>po_name = name, po_position = index + 1,
           po_values = map (\<lambda>value. \<lparr>pov_name = value\<rparr>) values\<rparr>)"

definition inferredOptions :: "CanonicalProduct \<Rightarrow> ProductOption list" where
  "inferredOptions p =
     map (\<lambda>(index, name). inferredOption (p_variants p) name index) (enumerate 0 (p_optionsOrder p))"

definition hasDefinedOptions :: "CanonicalProduct \<Rightarrow> bool" where
  "hasDefinedOptions p \<longleftrightarrow> length (inferredOptions p) > 0"

definition productOptions :: "CanonicalProduct \<Rightarrow> ProductOption list" where
  "productOptions p =
     (if hasDefinedOptions p then inferredOptions p
      else [\<lparr>po_name = DEFAULT_OPTION_NAME, po_position = 1,
             po_values = [\<lparr>pov_name = DEFAULT_OPTION_VALUE\<rparr>]\<rparr>])"

text \<open>
  The body of \<open>singleOrGroup.variants.forEach\<close>, in the order of the source.
  \<open>??\<close> replaces only a missing value: an empty string stays.
\<close>

definition optionValuesOf :: "CanonicalProduct \<Rightarrow> CanonicalVariant \<Rightarrow> VariantOptionValue list" where
  "optionValuesOf p variant =
     (if hasDefinedOptions p
      then map (\<lambda>option.
             \<lparr>ov_optionName = Some (po_name option),
              ov_name = (case v_options variant (po_name option) of
                           Some value \<Rightarrow> value
                         | None \<Rightarrow> fallbackOptionValue (po_name option))\<rparr>) (productOptions p)
      else [\<lparr>ov_optionName = Some DEFAULT_OPTION_NAME, ov_name = DEFAULT_OPTION_VALUE\<rparr>])"

definition variantKeyOf :: "CanonicalProduct \<Rightarrow> CanonicalVariant \<Rightarrow> string" where
  "variantKeyOf p variant = buildVariantKey (optionValuesOf p variant) (v_sku variant)"

definition imageSources :: "CanonicalVariant \<Rightarrow> string list" where
  "imageSources variant =
     arrayFromSet
       [src. Some src \<leftarrow>
          map Some (case v_imageUrls variant of Some urls \<Rightarrow> urls | None \<Rightarrow> []) @ [v_imageUrl variant],
          src \<noteq> []]"

definition mediaSrcOf :: "string list \<Rightarrow> string list option" where
  "mediaSrcOf sources = (case sources of [] \<Rightarrow> None | first # _ \<Rightarrow> Some [first])"

definition rawPayloadOf :: "CanonicalProduct \<Rightarrow> CanonicalVariant \<Rightarrow> RawVariantPayload" where
  "rawPayloadOf p variant =
     \<lparr>rp_key = variantKeyOf p variant,
      rp_input =
        \<lparr>vi_price = v_price variant,
         vi_inventoryPolicy = DENY,
         vi_inventoryItem = \<lparr>ii_sku = v_sku variant\<rparr>,
         vi_optionValues = optionValuesOf p variant,
         vi_mediaSrc = mediaSrcOf (imageSources variant)\<rparr>,
      rp_imageUrls = imageSources variant\<rparr>"

text \<open>The loop state is the pair of \<open>seenVariantKeys\<close> and \<open>rawVariantPayloads\<close>.\<close>

definition variantStep ::
  "CanonicalProduct \<Rightarrow> string set \<times> RawVariantPayload list \<Rightarrow> CanonicalVariant
     \<Rightarrow> string set \<times> RawVariantPayload list" where
  "variantStep p st variant =
     (case st of (seenVariantKeys, raw) \<Rightarrow>
        if variantKeyOf p variant \<in> seenVariantKeys then (seenVariantKeys, raw)
        else (insert (variantKeyOf p variant) seenVariantKeys, raw @ [rawPayloadOf p variant]))"

definition rawVariantPayloads :: "CanonicalProduct \<Rightarrow> RawVariantPayload list" where
  "rawVariantPayloads p = snd (foldl (variantStep p) ({}, []) (p_variants p))"

definition buildShopifyProductInputFromEbay :: "CanonicalProduct \<Rightarrow> ShopifyProductPayload" where
  "buildShopifyProductInputFromEbay p =
     (let variantPayloads = take MAX_SHOPIFY_VARIANTS (rawVariantPayloads p);
          dropped = length (rawVariantPayloads p) - length variantPayloads
      in \<lparr>productInput =
             \<lparr>pi_title = p_title p,
              pi_descriptionHtml = (case orElse (p_description p) (Some []) of Some d \<Rightarrow> d | None \<Rightarrow> []),
              pi_vendor = orElse (p_vendor p) None,
              pi_tags = uniqueTags p,
              pi_status = ACTIVE,
              pi_productOptions = productOptions p\<rparr>,
           variantInputs = map rp_input variantPayloads,
           variantAssets = map (\<lambda>v. \<lparr>va_key = rp_key v, va_imageUrls = rp_imageUrls v\<rparr>) variantPayloads,
           meta = (if dropped > 0 then Some \<lparr>droppedVariants = dropped\<rparr> else None)\<rparr>)"

section \<open>lib/map.ts: option axes of an item group\<close>

text \<open>
  The eBay payloads are untyped JSON (\<open>any\<close>). An aspect value is \<open>null\<close> or
  \<open>undefined\<close> (\<open>VNull\<close>), an array, whose elements are given by the strings
  \<open>String(v)\<close>, or any other value, given by the string \<open>String(value)\<close>. A field
  that should hold an array is \<open>None\<close> when \<open>Array.isArray\<close> is false for it.
\<close>

datatype AspectValue = VNull | VString string | VArray "string list"

record Aspect =
  a_name :: "string option"
  a_value :: AspectValue

record EbayItem =
  i_title :: "string option"
  i_description :: "string option"
  i_localizedAspects :: "Aspect list option"
  i_additionalAspects :: "Aspect list option"

text \<open>
  A payload returned by the marketplace. The fields that the modelled functions do not
  read travel in the extension part of the record.
\<close>

record EbayGroup =
  g_title :: "string option"
  g_description :: "string option"
  g_items :: "EbayItem list option"
  g_itemSummaries :: "EbayItem list option"
  g_itemSummariesV2 :: "EbayItem list option"

definition collectEbayItems :: "'a EbayGroup_scheme option \<Rightarrow> EbayItem list" where
  "collectEbayItems grp =
     (case grp of
        None \<Rightarrow> []
      | Some g \<Rightarrow>
          (case g_items g of
             Some (x # xs) \<Rightarrow> x # xs
           | _ \<Rightarrow>
             (case g_itemSummaries g of
                Some (x # xs) \<Rightarrow> x # xs
              | _ \<Rightarrow>
                (case g_itemSummariesV2 g of
                   Some (x # xs) \<Rightarrow> x # xs
                 | _ \<Rightarrow> []))))"

definition normAspectValue :: "AspectValue \<Rightarrow> string option" where
  "normAspectValue v =
     (case v of
        VNull \<Rightarrow> None
      | VArray vs \<Rightarrow>
          (let joined = join '' / '' (filter (\<lambda>x. x \<noteq> []) (map trim vs))
           in if joined = [] then None else Some joined)
      | VString x \<Rightarrow> (if trim x = [] then None else Some (trim x)))"

text \<open>
  A value of the \<open>Map\<close> \<open>aspectMeta\<close>. The map iterates in insertion order and is
  an association list; \<open>values\<close> is a \<open>Set\<close>, kept in insertion order.
\<close>

record AspectMeta =
  am_originalName :: string
  am_values :: "string list"
  am_order :: nat

definition updateEntry ::
  "string \<Rightarrow> (AspectMeta \<Rightarrow> AspectMeta) \<Rightarrow> (string \<times> AspectMeta) list \<Rightarrow> (string \<times> AspectMeta) list" where
  "updateEntry key f table = map (\<lambda>(k, m). if k = key then (k, f m) else (k, m)) table"

text \<open>
  The closure \<open>addAspect\<close>; its state is \<open>aspectMeta\<close> and \<open>aspectOrderCounter\<close>.
  \<open>recordAspect\<close> is its part after the guard, for a name and a value that passed.
\<close>

definition recordAspect ::
  "(string \<times> AspectMeta) list \<times> nat \<Rightarrow> string \<Rightarrow> string \<Rightarrow> (string \<times> AspectMeta) list \<times> nat" where
  "recordAspect st name value =
     (case st of (aspectMeta, aspectOrderCounter) \<Rightarrow>
        (let key = toLowerCase name;
             st' = (if key \<notin> fst ` set aspectMeta
                    then (aspectMeta @
                            [(key, \<lparr>am_originalName = name, am_values = [],
                                     am_order = aspectOrderCounter\<rparr>)],
                          aspectOrderCounter + 1)
                    else (aspectMeta, aspectOrderCounter))
         in (updateEntry key (\<lambda>m. m\<lparr>am_values := setAdd (am_values m) value\<rparr>) (fst st'),
             snd st')))"

definition addAspect ::
  "(string \<times> AspectMeta) list \<times> nat \<Rightarrow> string option \<Rightarrow> AspectValue
     \<Rightarrow> (string \<times> AspectMeta) list \<times> nat" where
  "addAspect st nameRaw valueRaw =
     (let name = map_option trim nameRaw;
          value = normAspectValue valueRaw
      in if \<not> truthy name \<or> \<not> truthy value then st
         else recordAspect st (the name) (the value))"

definition itemAspects :: "'a EbayItem_scheme \<Rightarrow> Aspect list" where
  "itemAspects item =
     (case i_localizedAspects item of Some l \<Rightarrow> l | None \<Rightarrow> [])
       @ (case i_additionalAspects item of Some l \<Rightarrow> l | None \<Rightarrow> [])"

definition addItemAspects ::
  "(string \<times> AspectMeta) list \<times> nat \<Rightarrow> 'a EbayItem_scheme \<Rightarrow> (string \<times> AspectMeta) list \<times> nat" where
  "addItemAspects st item =
     foldl (\<lambda>st aspect. addAspect st (a_name aspect) (a_value aspect)) st (itemAspects item)"

definition aspectTable :: "'a EbayItem_scheme list \<Rightarrow> (string \<times> AspectMeta) list" where
  "aspectTable items = fst (foldl addItemAspects ([], 0) items)"

definition deniedAspectNames :: "string list" where
  "deniedAspectNames =
     [''brand'', ''model'', ''type'', ''unit type'', ''unit quantity'', ''features'', ''style'',
      ''connectivity'', ''contract'', ''lock status'', ''operating system'']"

text \<open>The comparator given to \<open>sort\<close>.\<close>

definition compareMeta :: "AspectMeta \<Rightarrow> AspectMeta \<Rightarrow> int" where
  "compareMeta a b =
     (let diff = int (length (am_values b)) - int (length (am_values a))
      in if diff \<noteq> 0 then diff else int (am_order a) - int (am_order b))"

text \<open>
  \<open>Array.prototype.sort\<close> is stable; it is modelled by a stable insertion sort. The
  comparator above never returns 0 on two different entries of the table, so every
  sorting algorithm gives the same array.
\<close>

fun insertBy :: "('a \<Rightarrow> 'a \<Rightarrow> int) \<Rightarrow> 'a \<Rightarrow> 'a list \<Rightarrow> 'a list" where
  "insertBy cmp x [] = [x]"
| "insertBy cmp x (y # ys) = (if cmp x y \<le> 0 then x # y # ys else y # insertBy cmp x ys)"

definition sortBy :: "('a \<Rightarrow> 'a \<Rightarrow> int) \<Rightarrow> 'a list \<Rightarrow> 'a list" where
  "sortBy cmp xs = foldr (insertBy cmp) xs []"

definition selectedMetas :: "'a EbayItem_scheme list \<Rightarrow> AspectMeta list" where
  "selectedMetas items =
     take 3
       (sortBy compareMeta
         (filter (\<lambda>meta. toLowerCase (am_originalName meta) \<notin> set deniedAspectNames)
           (filter (\<lambda>meta. length (am_originalName meta) \<le> 30 \<and> length (am_values meta) \<le> 50)
             (filter (\<lambda>meta. length (am_values meta) > 1)
               (map snd (aspectTable items))))))"

definition optionNames :: "'a EbayItem_scheme list \<Rightarrow> string list" where
  "optionNames items = map am_originalName (selectedMetas items)"

text \<open>
  Of the object that \<open>mapEbayItemGroup\<close> returns, the model keeps \<open>optionsOrder\<close>;
  title, description, vendor, tags, images and the variant list are not modelled. The
  function throws on a group without items.
\<close>

record MappedGroup =
  mg_optionsOrder :: "string list"

definition mapEbayItemGroup :: "'a EbayGroup_scheme option \<Rightarrow> string + MappedGroup" where
  "mapEbayItemGroup grp =
     (let items = collectEbayItems grp
      in if items = [] then Inl ''eBay group payload missing items''
         else Inr \<lparr>mg_optionsOrder = optionNames items\<rparr>)"

section \<open>lib/ebay.ts: identifiers in URLs and error texts\<close>

definition isDigit :: "char \<Rightarrow> bool" where
  "isDigit c \<longleftrightarrow> c \<in> set ''0123456789''"

text \<open>
  \<open>s.match(/(\d{9,})$/)?.[1]\<close>: the matcher tries the start positions from the left;
  at a position the greedy \<open>\d{9,}\<close> followed by \<open>$\<close> matches exactly when the rest of
  the string is at least 9 digits.
\<close>

fun matchDigitTail :: "string \<Rightarrow> string option" where
  "matchDigitTail [] = None"
| "matchDigitTail (c # rest) =
     (if length (c # rest) \<ge> 9 \<and> list_all isDigit (c # rest) then Some (c # rest)
      else matchDigitTail rest)"

text \<open>
  A literal prefix followed by a captured greedy run of at least \<open>n\<close> digits, searched
  from the left: \<open>/\/itm\/(\d{9,})/\<close> and \<open>/item_group_id=(\d{6,})/\<close>.
\<close>

fun matchDigitsAfter :: "string \<Rightarrow> nat \<Rightarrow> string \<Rightarrow> string option" where
  "matchDigitsAfter lit n [] = None"
| "matchDigitsAfter lit n (c # rest) =
     (if take (length lit) (c # rest) = lit
         \<and> length (takeWhile isDigit (drop (length lit) (c # rest))) \<ge> n
      then Some (takeWhile isDigit (drop (length lit) (c # rest)))
      else matchDigitsAfter lit n rest)"

text \<open>
  \<open>pathnameOf url\<close> stands for \<open>new URL(url).pathname\<close> of the platform; it is
  \<open>None\<close> when the constructor throws.
\<close>

definition parseNumericTail :: "(string \<Rightarrow> string option) \<Rightarrow> string \<Rightarrow> string option" where
  "parseNumericTail pathnameOf url =
     (case pathnameOf url of
        None \<Rightarrow> None
      | Some pathname \<Rightarrow>
          (let tail = matchDigitTail pathname
           in if truthy tail then tail
              else (case matchDigitsAfter ''/itm/'' 9 pathname of
                      Some fromItm \<Rightarrow> Some fromItm
                    | None \<Rightarrow> None)))"

definition parseGroupIdFromErrorText :: "string \<Rightarrow> string option" where
  "parseGroupIdFromErrorText text = orElse (matchDigitsAfter ''item_group_id='' 6 text) None"

text \<open>
  A stand-in for the URL parser, used in the examples: the path of
  \<open>scheme://host/path?query#fragment\<close>.
\<close>

definition simplePathname :: "string \<Rightarrow> string option" where
  "simplePathname url =
     (let afterScheme = dropWhile (\<lambda>c. c \<noteq> CHR '':'') url
      in if take 3 afterScheme \<noteq> ''://'' then None
         else (let afterHost = dropWhile (\<lambda>c. c \<noteq> CHR ''/'') (drop 3 afterScheme);
                   path = takeWhile (\<lambda>c. c \<noteq> CHR ''?'' \<and> c \<noteq> CHR ''#'') afterHost
               in Some (if path = [] then ''/'' else path)))"

section \<open>app/api/import/route.ts: resolving a listing\<close>

text \<open>
  A remote call either throws or returns the parsed JSON body. A thrown value is
  represented by the text that the handlers read from it (\<open>err?.message || err\<close>):
  \<open>Inl text\<close>. A returned body is \<open>Inr None\<close> when it is falsy (\<open>null\<close>) and
  \<open>Inr (Some data)\<close> when it is an object. Within the resolution of one URL every
  endpoint is called at most once per identifier, so each collaborator is a function of
  its argument.
\<close>

record ListingIdentifiers =
  li_itemId :: "string option"
  li_itemGroupId :: "string option"
  li_legacyItemId :: "string option"

record 'a Collaborators =
  pathnameOf :: "string \<Rightarrow> string option"
  ebayGetItemByLegacyId :: "string \<Rightarrow> string + 'a EbayGroup_scheme option"
  ebayGetItem :: "string \<Rightarrow> string + 'a EbayGroup_scheme option"
  ebayGetItemGroup :: "string \<Rightarrow> string + 'a EbayGroup_scheme option"
  ebayGetItemsByItemGroup :: "string \<Rightarrow> string + 'a EbayGroup_scheme option"
  ebayExtractListingIdentifiers :: "string \<Rightarrow> string + ListingIdentifiers option"

text \<open>
  The variables that the closures of the recovery sequence share. \<open>scrapedIds\<close> is
  \<open>None\<close> while it is \<open>undefined\<close>, \<open>Some None\<close> when it is \<open>null\<close>.
\<close>

record 'a ResolverState =
  itemOrGroup :: "'a EbayGroup_scheme option"
  isGroup :: bool
  attemptNotes :: "string list"
  attemptedGroupIds :: "string set"
  attemptedLegacyIds :: "string set"
  attemptedItemIds :: "string set"
  scrapedIds :: "ListingIdentifiers option option"

definition pushNote :: "string \<Rightarrow> 'a ResolverState \<Rightarrow> 'a ResolverState" where
  "pushNote note st = st\<lparr>attemptNotes := attemptNotes st @ [note]\<rparr>"

definition attemptNote :: "string \<Rightarrow> string \<Rightarrow> string \<Rightarrow> string" where
  "attemptNote label ident outcome = label @ ''('' @ ident @ ''): '' @ outcome"

definition ensureScraped :: "'a Collaborators \<Rightarrow> string \<Rightarrow> 'a ResolverState \<Rightarrow> 'a ResolverState" where
  "ensureScraped env sourceUrl st =
     (if scrapedIds st \<noteq> None then st
      else (case ebayExtractListingIdentifiers env sourceUrl of
              Inr ids \<Rightarrow>
                (let st = st\<lparr>scrapedIds := Some ids\<rparr>
                 in if ids = None then pushNote ''scrape: no identifiers found in HTML'' st else st)
            | Inl scrapeErr \<Rightarrow>
                (pushNote (''scrape: '' @ scrapeErr) st)\<lparr>scrapedIds := Some None\<rparr>))"

definition tryLegacyId :: "'a Collaborators \<Rightarrow> string option \<Rightarrow> 'a ResolverState \<Rightarrow> 'a ResolverState" where
  "tryLegacyId env ident st =
     (if \<not> truthy ident \<or> itemOrGroup st \<noteq> None then st
      else if the ident \<in> attemptedLegacyIds st then st
      else
        (let st = st\<lparr>attemptedLegacyIds := insert (the ident) (attemptedLegacyIds st)\<rparr>
         in case ebayGetItemByLegacyId env (the ident) of
              Inr data \<Rightarrow> pushNote (attemptNote ''legacy'' (the ident) ''success'') (st\<lparr>itemOrGroup := data\<rparr>)
            | Inl legacyErr \<Rightarrow> pushNote (attemptNote ''legacy'' (the ident) legacyErr) st))"

definition normalizeGroupResponse :: "'a EbayGroup_scheme option \<Rightarrow> 'a EbayGroup_scheme option" where
  "normalizeGroupResponse data =
     (case data of
        None \<Rightarrow> None
      | Some d \<Rightarrow>
          (let items = (case g_items d of
                          Some xs \<Rightarrow> xs
                        | None \<Rightarrow>
                          (case g_itemSummaries d of
                             Some xs \<Rightarrow> xs
                           | None \<Rightarrow>
                             (case g_itemSummariesV2 d of
                                Some xs \<Rightarrow> xs
                              | None \<Rightarrow> [])));
               first = (case items of x # _ \<Rightarrow> Some x | [] \<Rightarrow> None)
           in Some (d\<lparr>g_items := Some items,
                      g_title := orElse (g_title d) (Option.bind first i_title),
                      g_description := orElse (g_description d) (Option.bind first i_description)\<rparr>)))"

text \<open>One iteration of the loop over the two group endpoints in \<open>tryGroupId\<close>.\<close>

definition groupAttempt ::
  "string \<Rightarrow> 'a ResolverState \<Rightarrow> string \<times> (string \<Rightarrow> string + 'a EbayGroup_scheme option)
     \<Rightarrow> 'a ResolverState" where
  "groupAttempt ident st attempt =
     (case attempt of (label, fn) \<Rightarrow>
        if itemOrGroup st \<noteq> None then st
        else (case fn ident of
                Inr raw \<Rightarrow>
                  pushNote (attemptNote label ident ''success'')
                    (st\<lparr>itemOrGroup := normalizeGroupResponse raw, isGroup := True\<rparr>)
              | Inl groupErr \<Rightarrow> pushNote (attemptNote label ident groupErr) st))"

definition tryGroupId :: "'a Collaborators \<Rightarrow> string option \<Rightarrow> 'a ResolverState \<Rightarrow> 'a ResolverState" where
  "tryGroupId env ident st =
     (if \<not> truthy ident \<or> itemOrGroup st \<noteq> None then st
      else if the ident \<in> attemptedGroupIds st then st
      else
        foldl (groupAttempt (the ident))
          (st\<lparr>attemptedGroupIds := insert (the ident) (attemptedGroupIds st)\<rparr>)
          [(''item_group'', ebayGetItemGroup env),
           (''get_items_by_item_group'', ebayGetItemsByItemGroup env)])"

definition tryItemId :: "'a Collaborators \<Rightarrow> string option \<Rightarrow> 'a ResolverState \<Rightarrow> 'a ResolverState" where
  "tryItemId env ident st =
     (if \<not> truthy ident \<or> itemOrGroup st \<noteq> None then st
      else if the ident \<in> attemptedItemIds st then st
      else
        (let st = st\<lparr>attemptedItemIds := insert (the ident) (attemptedItemIds st)\<rparr>
         in case ebayGetItem env (the ident) of
              Inr data \<Rightarrow>
                pushNote (attemptNote ''item'' (the ident) ''success'')
                  (st\<lparr>itemOrGroup := data, isGroup := False\<rparr>)
            | Inl itemErr \<Rightarrow> pushNote (attemptNote ''item'' (the ident) itemErr) st))"

text \<open>\<open>scrapedIds ?? null\<close>\<close>

definition scrapedOrNull :: "'a ResolverState \<Rightarrow> ListingIdentifiers option" where
  "scrapedOrNull st = (case scrapedIds st of Some ids \<Rightarrow> ids | None \<Rightarrow> None)"

text \<open>The block guarded by the first \<open>if (!itemOrGroup)\<close>: scraping the page.\<close>

definition scrapeStage :: "'a Collaborators \<Rightarrow> string \<Rightarrow> string \<Rightarrow> 'a ResolverState \<Rightarrow> 'a ResolverState" where
  "scrapeStage env sourceUrl numeric st =
     (if itemOrGroup st \<noteq> None then st
      else
        (let st = ensureScraped env sourceUrl st;
             scraped = scrapedOrNull st;
             scrapedLegacy = Option.bind scraped li_legacyItemId;
             scrapedGroup = Option.bind scraped li_itemGroupId;
             st = (if truthy scrapedLegacy \<and> scrapedLegacy \<noteq> Some numeric
                   then tryLegacyId env scrapedLegacy st else st)
         in if itemOrGroup st = None \<and> truthy scrapedGroup \<and> scrapedGroup \<noteq> Some numeric
            then tryGroupId env scrapedGroup st else st))"

text \<open>The block guarded by the second \<open>if (!itemOrGroup)\<close>: fetching the item directly.\<close>

definition candidateItemIds :: "ListingIdentifiers option \<Rightarrow> string \<Rightarrow> string list" where
  "candidateItemIds scraped numeric =
     arrayFromSet
       [c. Some c \<leftarrow>
          [Option.bind scraped li_itemId,
           (if truthy (Option.bind scraped li_legacyItemId)
            then Some (''v1|'' @ the (Option.bind scraped li_legacyItemId) @ ''|0'') else None),
           Some (''v1|'' @ numeric @ ''|0''),
           Some numeric],
          c \<noteq> []]"

definition itemStage :: "'a Collaborators \<Rightarrow> string \<Rightarrow> 'a ResolverState \<Rightarrow> 'a ResolverState" where
  "itemStage env numeric st =
     (if itemOrGroup st \<noteq> None then st
      else foldl (\<lambda>st candidate. if itemOrGroup st \<noteq> None then st else tryItemId env (Some candidate) st)
             st (candidateItemIds (scrapedOrNull st) numeric))"

text \<open>The \<open>catch\<close> block of the legacy lookup, up to its last \<open>if\<close>.\<close>

definition recover :: "'a Collaborators \<Rightarrow> string \<Rightarrow> string \<Rightarrow> string \<Rightarrow> 'a ResolverState" where
  "recover env sourceUrl numeric msg =
     (let st = \<lparr>itemOrGroup = None, isGroup = False,
                attemptNotes = [attemptNote ''legacy'' numeric msg],
                attemptedGroupIds = {}, attemptedLegacyIds = {numeric}, attemptedItemIds = {},
                scrapedIds = None\<rparr>;
          hintedGroup = parseGroupIdFromErrorText msg;
          st = tryGroupId env hintedGroup st;
          st = tryGroupId env (Some numeric) st;
          st = scrapeStage env sourceUrl numeric st
      in itemStage env numeric st)"

text \<open>
  The outcome of the resolution of one URL: the payload and \<open>isGroup\<close>, and, for
  observation, the notes collected on the way (the source keeps them only in the text of
  the error it throws when every attempt failed).
\<close>

record 'a Resolution =
  res_itemOrGroup :: "'a EbayGroup_scheme option"
  res_isGroup :: bool
  res_notes :: "string list"

definition resolve :: "'a Collaborators \<Rightarrow> string \<Rightarrow> string \<Rightarrow> string + 'a Resolution" where
  "resolve env sourceUrl numeric =
     (case ebayGetItemByLegacyId env numeric of
        Inr data \<Rightarrow> Inr \<lparr>res_itemOrGroup = data, res_isGroup = False, res_notes = []\<rparr>
      | Inl msg \<Rightarrow>
          (let st = recover env sourceUrl numeric msg
           in if itemOrGroup st = None
              then Inl (''Unable to fetch eBay data for '' @ sourceUrl @ '' after multiple attempts:''
                          @ [CHR 0x0A] @ join [CHR 0x0A] (attemptNotes st))
              else Inr \<lparr>res_itemOrGroup = itemOrGroup st, res_isGroup = isGroup st,
                        res_notes = attemptNotes st\<rparr>))"

section \<open>app/api/import/route.ts: the import of a batch\<close>

datatype ImportStatus = Created | Updated | Failed

record ImportResult =
  sourceUrl :: string
  legacyItemId :: "string option"
  productId :: "string option"
  handle :: "string option"
  r_title :: "string option"
  variants :: "nat option"
  status :: ImportStatus
  error :: "string option"
  shopifyUrl :: "string option"

text \<open>
  The statements of the \<open>try\<close> block between the resolution and \<open>r.status = "created"\<close>
  (reconciliation, product, media and variant creation, the warning about dropped
  variants) are one collaborator. They read the URL, the resolved payload and \<open>isGroup\<close>;
  of the record \<open>r\<close> they assign \<open>productId\<close>, \<open>handle\<close>, \<open>title\<close>, \<open>variants\<close>,
  \<open>shopifyUrl\<close> and, for the warning, \<open>error\<close>, and nothing else. Their outcome is the
  values of these fields when the block ends (a field that was not assigned is absent),
  and the text of the failure when one of the statements throws.
\<close>

record StepOutcome =
  so_productId :: "string option"
  so_handle :: "string option"
  so_title :: "string option"
  so_variants :: "nat option"
  so_shopifyUrl :: "string option"
  so_warning :: "string option"
  so_failure :: "string option"

type_synonym 'a ImportSteps = "string \<Rightarrow> 'a EbayGroup_scheme option \<Rightarrow> bool \<Rightarrow> StepOutcome"

text \<open>The \<open>catch\<close> block of one URL.\<close>

definition catchFailure :: "ImportResult \<Rightarrow> string \<Rightarrow> ImportResult" where
  "catchFailure r e = r\<lparr>error := Some e, status := Failed\<rparr>"

text \<open>\<open>const r: ImportResult = { sourceUrl, status: "failed" }\<close>\<close>

definition initialResult :: "string \<Rightarrow> ImportResult" where
  "initialResult url =
     \<lparr>sourceUrl = url, legacyItemId = None, productId = None, handle = None,
      r_title = None, variants = None, status = Failed, error = None, shopifyUrl = None\<rparr>"

text \<open>The body of the loop over the URLs, up to the \<open>catch\<close> block.\<close>

definition importUrl :: "'a Collaborators \<Rightarrow> 'a ImportSteps \<Rightarrow> string \<Rightarrow> ImportResult" where
  "importUrl env steps url =
     (let r = initialResult url
      in case parseNumericTail (pathnameOf env) url of
           None \<Rightarrow> catchFailure r ''Cannot parse numeric id from URL''
         | Some numeric \<Rightarrow>
             (let r = r\<lparr>legacyItemId := Some numeric\<rparr>
              in case resolve env url numeric of
                   Inl e \<Rightarrow> catchFailure r e
                 | Inr res \<Rightarrow>
                     (let out = steps url (res_itemOrGroup res) (res_isGroup res);
                          r = r\<lparr>productId := so_productId out, handle := so_handle out,
                                r_title := so_title out, variants := so_variants out,
                                shopifyUrl := so_shopifyUrl out, error := so_warning out\<rparr>
                      in case so_failure out of
                           Some e \<Rightarrow> catchFailure r e
                         | None \<Rightarrow> r\<lparr>status := Created\<rparr>)))"

text \<open>
  The end of the loop body: \<open>results.push(r)\<close>, \<open>importedCache.unshift(r)\<close> and the
  eviction. The state is \<open>results\<close> and the module variable \<open>importedCache\<close>.
\<close>

definition recordResult ::
  "ImportResult list \<times> ImportResult list \<Rightarrow> ImportResult \<Rightarrow> ImportResult list \<times> ImportResult list" where
  "recordResult st r =
     (case st of (results, importedCache) \<Rightarrow>
        (let importedCache = r # importedCache
         in (results @ [r],
             if length importedCache > 50 then butlast importedCache else importedCache)))"

record RequestBody =
  b_url :: "string option"
  b_urls :: "string list option"

datatype Response = Ok200 "ImportResult list" | Error400 string | Error500 string

text \<open>
  \<open>POST\<close>: the argument \<open>reqJson\<close> is the outcome of \<open>req.json()\<close> (it may throw, and the
  body may be \<open>null\<close>); the function returns the response and the new \<open>importedCache\<close>.
\<close>

definition requestUrls :: "RequestBody option \<Rightarrow> string list" where
  "requestUrls body =
     filter (\<lambda>u. u \<noteq> [])
       (case Option.bind body b_urls of
          Some urls \<Rightarrow> urls
        | None \<Rightarrow> (if truthy (Option.bind body b_url) then [the (Option.bind body b_url)] else []))"

definition POST ::
  "'a Collaborators \<Rightarrow> 'a ImportSteps \<Rightarrow> ImportResult list \<Rightarrow> string + RequestBody option
     \<Rightarrow> Response \<times> ImportResult list" where
  "POST env steps importedCache reqJson =
     (case reqJson of
        Inl e \<Rightarrow> (Error500 e, importedCache)
      | Inr body \<Rightarrow>
          (let urls = requestUrls body
           in if urls = [] then (Error400 ''Missing url/urls'', importedCache)
              else (case foldl (\<lambda>st url. recordResult st (importUrl env steps url)) ([], importedCache) urls of
                      (results, importedCache) \<Rightarrow> (Ok200 results, importedCache))))"

section \<open>Notions used in the statements\<close>

text \<open>
  Two characters are equal up to letter case; two strings are equal up to letter case
  and surrounding white space when they become equal up to case after white space has
  been removed from, or added to, their ends.
\<close>

definition caseVariant :: "char \<Rightarrow> char \<Rightarrow> bool" where
  "caseVariant c d \<longleftrightarrow>
     c = d \<or> (c, d) \<in> set (zip ''ABCDEFGHIJKLMNOPQRSTUVWXYZ'' ''abcdefghijklmnopqrstuvwxyz'')
           \<or> (d, c) \<in> set (zip ''ABCDEFGHIJKLMNOPQRSTUVWXYZ'' ''abcdefghijklmnopqrstuvwxyz'')"

inductive sameText :: "string \<Rightarrow> string \<Rightarrow> bool" where
  letters: "list_all2 caseVariant x y \<Longrightarrow> sameText x y"
| padFrontL: "isWhiteSpace c \<Longrightarrow> sameText x y \<Longrightarrow> sameText (c # x) y"
| padFrontR: "isWhiteSpace c \<Longrightarrow> sameText x y \<Longrightarrow> sameText x (c # y)"
| padBackL: "isWhiteSpace c \<Longrightarrow> sameText x y \<Longrightarrow> sameText (x @ [c]) y"
| padBackR: "isWhiteSpace c \<Longrightarrow> sameText x y \<Longrightarrow> sameText x (y @ [c])"

fun sameOptText :: "string option \<Rightarrow> string option \<Rightarrow> bool" where
  "sameOptText None None = True"
| "sameOptText (Some x) (Some y) = sameText x y"
| "sameOptText _ _ = False"

definition sameOptionValue :: "VariantOptionValue \<Rightarrow> VariantOptionValue \<Rightarrow> bool" where
  "sameOptionValue a b \<longleftrightarrow>
     sameOptText (ov_optionName a) (ov_optionName b) \<and> sameText (ov_name a) (ov_name b)"

text \<open>
  The first occurrences in a list, by a key: the element at index \<open>i\<close> stays when no
  earlier element has its key.
\<close>

definition firstOccurrences :: "('a \<Rightarrow> 'k) \<Rightarrow> 'a list \<Rightarrow> 'a list" where
  "firstOccurrences key vs =
     map (\<lambda>i. vs ! i) (filter (\<lambda>i. key (vs ! i) \<notin> key ` set (take i vs)) [0..<length vs])"

text \<open>The deduplicated variant list of a canonical product: its variants without those whose
  key an earlier variant has.\<close>

definition dedupedVariants :: "CanonicalProduct \<Rightarrow> CanonicalVariant list" where
  "dedupedVariants p = firstOccurrences (variantKeyOf p) (p_variants p)"

text \<open>Example products: one with no option axes and variants that differ in their SKUs, made
  from a list of SKUs; 150 SKUs of two characters; and three variants of which the third
  repeats the key of the first.\<close>

definition plainVariant :: "string \<Rightarrow> CanonicalVariant" where
  "plainVariant s =
     \<lparr>v_sku = Some s, v_price = ''1.00'', v_currencyCode = ''USD'', v_options = Map.empty,
      v_imageUrl = None, v_imageUrls = None\<rparr>"

definition plainProduct :: "string list \<Rightarrow> CanonicalProduct" where
  "plainProduct skus =
     \<lparr>p_title = ''Example'', p_description = None, p_imageUrls = [], p_tags = [],
      p_vendor = None, p_variants = map plainVariant skus, p_optionsOrder = []\<rparr>"

definition skus150 :: "string list" where
  "skus150 = concat (map (\<lambda>a. map (\<lambda>b. [a, b]) ''0123456789'') ''abcdefghijklmno'')"

definition shirtRed :: CanonicalVariant where
  "shirtRed =
     \<lparr>v_sku = Some ''A1'', v_price = ''10.00'', v_currencyCode = ''USD'',
      v_options = [''Color'' \<mapsto> ''Red''],
      v_imageUrl = Some ''u1'', v_imageUrls = Some [''u2'', ''u1'', [], ''u2'']\<rparr>"

definition shirtBlue :: CanonicalVariant where
  "shirtBlue =
     \<lparr>v_sku = Some ''B2'', v_price = ''11.00'', v_currencyCode = ''USD'',
      v_options = [''Color'' \<mapsto> ''Blue''],
      v_imageUrl = None, v_imageUrls = None\<rparr>"

definition shirtRedAgain :: CanonicalVariant where
  "shirtRedAgain =
     \<lparr>v_sku = Some '' a1 '', v_price = ''12.00'', v_currencyCode = ''USD'',
      v_options = [''Color'' \<mapsto> ''RED''],
      v_imageUrl = Some ''u3'', v_imageUrls = None\<rparr>"

definition shirt :: CanonicalProduct where
  "shirt =
     \<lparr>p_title = ''Shirt'', p_description = None, p_imageUrls = [], p_tags = [],
      p_vendor = None, p_variants = [shirtRed, shirtBlue, shirtRedAgain], p_optionsOrder = [''Color'']\<rparr>"

text \<open>The images that a variant brings: its \<open>imageUrls\<close> first, then its single
  \<open>imageUrl\<close>.\<close>

definition variantImageCandidates :: "CanonicalVariant \<Rightarrow> string list" where
  "variantImageCandidates v =
     (case v_imageUrls v of Some urls \<Rightarrow> urls | None \<Rightarrow> [])
       @ (case v_imageUrl v of Some u \<Rightarrow> [u] | None \<Rightarrow> [])"

text \<open>A sequence of batch requests, each starting from the \<open>importedCache\<close> that the
  one before left; and the results that a response carries.\<close>

fun runBatches ::
  "'a Collaborators \<Rightarrow> 'a ImportSteps \<Rightarrow> ImportResult list \<Rightarrow> (string + RequestBody option) list
     \<Rightarrow> Response list \<times> ImportResult list" where
  "runBatches env steps importedCache [] = ([], importedCache)"
| "runBatches env steps importedCache (req # reqs) =
     (case POST env steps importedCache req of
        (resp, cache') \<Rightarrow>
          (case runBatches env steps cache' reqs of
             (resps, cache'') \<Rightarrow> (resp # resps, cache'')))"

fun resultsOf :: "Response \<Rightarrow> ImportResult list" where
  "resultsOf (Ok200 results) = results"
| "resultsOf _ = []"

text \<open>
  Example collaborators. The legacy lookup fails for one listing, answers for a second
  with an error that names an item group, and succeeds otherwise; only the group detail
  of the second listing's own number exists; the page holds no identifiers. The steps after
  the resolution fail to create a product for a group and create one for a single item.
\<close>

definition exampleGroup :: EbayGroup where
  "exampleGroup =
     \<lparr>g_title = None, g_description = Some ''Shirts'', g_items = None,
      g_itemSummaries =
        Some [\<lparr>i_title = Some ''Shirt red'', i_description = None,
                i_localizedAspects = None, i_additionalAspects = None\<rparr>],
      g_itemSummariesV2 = None\<rparr>"

definition exampleItem :: EbayGroup where
  "exampleItem =
     \<lparr>g_title = Some ''Dried leaves'', g_description = None, g_items = None,
      g_itemSummaries = None, g_itemSummariesV2 = None\<rparr>"

definition exampleEnv :: "unit Collaborators" where
  "exampleEnv =
     \<lparr>pathnameOf = simplePathname,
      ebayGetItemByLegacyId =
        (\<lambda>ident. if ident = ''317074302407'' then Inl ''EBAY_LEGACY_FAIL 404''
                 else if ident = ''356227859677''
                 then Inl ''EBAY_LEGACY_FAIL 400 use item_group_id=777777 instead''
                 else Inr (Some exampleItem)),
      ebayGetItem = (\<lambda>ident. Inl ''eBay item failed: 404''),
      ebayGetItemGroup =
        (\<lambda>ident. if ident = ''356227859677'' then Inr (Some exampleGroup)
                 else Inl ''eBay item_group failed: 404''),
      ebayGetItemsByItemGroup = (\<lambda>ident. Inl ''eBay get_items_by_item_group failed: 404''),
      ebayExtractListingIdentifiers = (\<lambda>url. Inr None)\<rparr>"

definition exampleSteps :: "unit ImportSteps" where
  "exampleSteps url payload isGrp =
     (if isGrp
      then \<lparr>so_productId = None, so_handle = None, so_title = None, so_variants = None,
            so_shopifyUrl = None, so_warning = None,
            so_failure = Some ''productCreate errors: []''\<rparr>
      else \<lparr>so_productId = Some ''gid://shopify/Product/1'', so_handle = Some ''dried-leaves'',
            so_title = Some ''Dried leaves'', so_variants = Some 1,
            so_shopifyUrl = Some ''https://shop.example/admin/products/1'', so_warning = None,
            so_failure = None\<rparr>)"

definition exampleUrls :: "string list" where
  "exampleUrls =
     [''not a url'',
      ''https://www.ebay.com/itm/317074302407'',
      ''https://www.ebay.com/itm/356227859677'',
      ''https://www.ebay.com/itm/262742221410'']"

text \<open>Sixty different URLs, imported in two batches of 25 and 35.\<close>

definition url60 :: "nat \<Rightarrow> string" where
  "url60 n =
     ''https://www.ebay.com/itm/2627422214'' @ [''0123456789'' ! (n div 10), ''0123456789'' ! (n mod 10)]"

definition batches60 :: "(string + RequestBody option) list" where
  "batches60 =
     [Inr (Some \<lparr>b_url = None, b_urls = Some (map url60 [0..<25])\<rparr>),
      Inr (Some \<lparr>b_url = None, b_urls = Some (map url60 [25..<60])\<rparr>)]"

definition imported60 :: "ImportResult list" where
  "imported60 = concat (map resultsOf (fst (runBatches exampleEnv exampleSteps [] batches60)))"

definition cache60 :: "ImportResult list" where
  "cache60 = snd (runBatches exampleEnv exampleSteps [] batches60)"

definition exampleRequest :: "RequestBody option" where
  "exampleRequest = Some \<lparr>b_url = None, b_urls = Some exampleUrls\<rparr>"

text \<open>The last segment of a path, and whether it is a number of at least 9 digits.\<close>

definition trailingSegment :: "string \<Rightarrow> string" where
  "trailingSegment p = rev (takeWhile (\<lambda>c. c \<noteq> CHR ''/'') (rev p))"

definition hasNumericTailSegment :: "string \<Rightarrow> bool" where
  "hasNumericTailSegment p \<longleftrightarrow>
     length (trailingSegment p) \<ge> 9 \<and> list_all isDigit (trailingSegment p)"

text \<open>The longest run of digits at the end of a string.\<close>

definition trailingDigits :: "string \<Rightarrow> string" where
  "trailingDigits p = rev (takeWhile isDigit (rev p))"

text \<open>A group response whose \<open>items\<close> is an empty array while \<open>itemSummaries\<close> holds
  the member.\<close>

definition shirtItem :: EbayItem where
  "shirtItem =
     \<lparr>i_title = Some ''Shirt red'', i_description = Some ''Cotton'',
      i_localizedAspects = None, i_additionalAspects = None\<rparr>"

definition emptyItemsGroup :: EbayGroup where
  "emptyItemsGroup =
     \<lparr>g_title = None, g_description = None, g_items = Some [],
      g_itemSummaries = Some [shirtItem], g_itemSummariesV2 = None\<rparr>"

text \<open>
  The aspects observed in a group, in the order in which the members and their aspect
  lists are read: the trimmed name and the normalized value of every aspect that has
  both.
\<close>

definition aspectEntry :: "Aspect \<Rightarrow> (string \<times> string) list" where
  "aspectEntry a =
     (case (map_option trim (a_name a), normAspectValue (a_value a)) of
        (Some n, Some v) \<Rightarrow> (if n \<noteq> [] \<and> v \<noteq> [] then [(n, v)] else [])
      | _ \<Rightarrow> [])"

definition observedAspects :: "'a EbayItem_scheme list \<Rightarrow> (string \<times> string) list" where
  "observedAspects items = concat (map aspectEntry (concat (map itemAspects items)))"

text \<open>
  The aggregation of the observed aspects, case-insensitive in the name: the lower-cased
  names in first-seen order, and for each of them, numbered from 0, the spelling of its
  first observation and its different values.
\<close>

definition observationsOf :: "string \<Rightarrow> (string \<times> string) list \<Rightarrow> (string \<times> string) list" where
  "observationsOf k obs = filter (\<lambda>nv. toLowerCase (fst nv) = k) obs"

definition aspectKeys :: "(string \<times> string) list \<Rightarrow> string list" where
  "aspectKeys obs = firstOccurrences (\<lambda>k. k) (map (\<lambda>nv. toLowerCase (fst nv)) obs)"

definition aggregatedEntry :: "(string \<times> string) list \<Rightarrow> nat \<times> string \<Rightarrow> string \<times> AspectMeta" where
  "aggregatedEntry obs ik =
     (snd ik,
      \<lparr>am_originalName = fst (hd (observationsOf (snd ik) obs)),
       am_values = firstOccurrences (\<lambda>v. v) (map snd (observationsOf (snd ik) obs)),
       am_order = fst ik\<rparr>)"

definition aggregated :: "(string \<times> string) list \<Rightarrow> (string \<times> AspectMeta) list" where
  "aggregated obs = map (aggregatedEntry obs) (enumerate 0 (aspectKeys obs))"

text \<open>An aggregated aspect qualifies as an option axis; one axis ranks before another.\<close>

definition qualifies :: "AspectMeta \<Rightarrow> bool" where
  "qualifies m \<longleftrightarrow>
     card (set (am_values m)) > 1
     \<and> length (am_originalName m) \<le> 30
     \<and> card (set (am_values m)) \<le> 50
     \<and> toLowerCase (am_originalName m) \<notin> set deniedAspectNames"

definition ranksBefore :: "AspectMeta \<Rightarrow> AspectMeta \<Rightarrow> bool" where
  "ranksBefore a b \<longleftrightarrow>
     card (set (am_values a)) > card (set (am_values b))
     \<or> (card (set (am_values a)) = card (set (am_values b)) \<and> am_order a < am_order b)"

text \<open>A group of five members: three colours, two sizes, two fits and two sleeve lengths, a
  brand that varies, a material that does not, and an aspect whose name has more than 30
  characters. The aspect \<open>Sleeve\<close>, as aggregated, is the sixth name seen.\<close>

definition member :: "(string \<times> AspectValue) list \<Rightarrow> EbayItem" where
  "member aspects =
     \<lparr>i_title = Some ''Shirt'', i_description = None,
      i_localizedAspects = Some (map (\<lambda>nv. \<lparr>a_name = Some (fst nv), a_value = snd nv\<rparr>) aspects),
      i_additionalAspects = None\<rparr>"

definition shirtGroup :: EbayGroup where
  "shirtGroup =
     \<lparr>g_title = Some ''Shirts'', g_description = None,
      g_items = Some
        [member [(''Brand'', VString ''Acme''), ('' Size'', VString ''M''), (''Color'', VString ''Red ''),
                 (''Material'', VString ''Cotton''), (''Fit'', VString ''Slim''),
                 (''Sleeve'', VString ''Short'')],
         member [(''brand'', VString ''Apex''), (''size'', VString ''L''), (''COLOR'', VString ''Blue''),
                 (''Material'', VString ''Cotton''), (''Fit'', VString ''Regular''),
                 (''Sleeve'', VString ''Long''),
                 (''A very long aspect name of forty characters'', VString ''x'')],
         member [(''Size'', VString ''M''), (''Color'', VArray [''Blue'']),
                 (''A very long aspect name of forty characters'', VString ''y'')],
         member [(''Size'', VNull), (''Color'', VString ''Green'')],
         member [(''Size'', VString ''L''), (''Color'', VString ''Red'')]],
      g_itemSummaries = None, g_itemSummariesV2 = None\<rparr>"

definition sleeveMeta :: AspectMeta where
  "sleeveMeta = \<lparr>am_originalName = ''Sleeve'', am_values = [''Short'', ''Long''], am_order = 5\<rparr>"

text \<open>The three filters in front of the sort, as one predicate.\<close>

definition passesFilters :: "AspectMeta \<Rightarrow> bool" where
  "passesFilters m \<longleftrightarrow>
     length (am_values m) > 1
     \<and> (length (am_originalName m) \<le> 30 \<and> length (am_values m) \<le> 50)
     \<and> toLowerCase (am_originalName m) \<notin> set deniedAspectNames"

section \<open>Properties of the string functions\<close>

lemma zip_lower:
  "(c, d) \<in> set (zip ''ABCDEFGHIJKLMNOPQRSTUVWXYZ'' ''abcdefghijklmnopqrstuvwxyz'')
     \<Longrightarrow> toLowerChar c = d \<and> toLowerChar d = d \<and> \<not> isWhiteSpace c \<and> \<not> isWhiteSpace d"
  apply (simp only: zip_Cons_Cons zip_Nil list.set insert_iff empty_iff prod.inject)
  apply (elim disjE conjE FalseE; hypsubst; simp add: toLowerChar_def isWhiteSpace_def)
  done

lemma toLowerChar_cases:
  "toLowerChar c = c
     \<or> (c, toLowerChar c) \<in> set (zip ''ABCDEFGHIJKLMNOPQRSTUVWXYZ'' ''abcdefghijklmnopqrstuvwxyz'')"
proof (cases "map_of (zip ''ABCDEFGHIJKLMNOPQRSTUVWXYZ'' ''abcdefghijklmnopqrstuvwxyz'') c")
  case None
  then have "toLowerChar c = c" by (simp only: toLowerChar_def option.case)
  then show ?thesis by (rule disjI1)
next
  case (Some d)
  then have "(c, d) \<in> set (zip ''ABCDEFGHIJKLMNOPQRSTUVWXYZ'' ''abcdefghijklmnopqrstuvwxyz'')"
    by (rule map_of_SomeD)
  moreover have "toLowerChar c = d" using Some by (simp only: toLowerChar_def option.case)
  ultimately show ?thesis by simp
qed

lemma caseVariant_lower: "caseVariant c d \<Longrightarrow> toLowerChar c = toLowerChar d"
  unfolding caseVariant_def using zip_lower[of c d] zip_lower[of d c] by metis

lemma isWhiteSpace_lower: "isWhiteSpace (toLowerChar c) = isWhiteSpace c"
  using toLowerChar_cases[of c] zip_lower[of c "toLowerChar c"] by metis

lemma trim_Cons_ws: "isWhiteSpace c \<Longrightarrow> trim (c # x) = trim x"
  by (simp add: trim_def)

lemma trim_snoc_ws:
  assumes c: "isWhiteSpace c"
  shows "trim (x @ [c]) = trim x"
proof (cases "\<forall>a\<in>set x. isWhiteSpace a")
  case True
  with c have "\<forall>a\<in>set (x @ [c]). isWhiteSpace a" by simp
  then have A: "dropWhile isWhiteSpace (x @ [c]) = []"
    by (simp only: dropWhile_eq_Nil_conv)
  from True have B: "dropWhile isWhiteSpace x = []"
    by (simp only: dropWhile_eq_Nil_conv)
  show ?thesis unfolding trim_def A B ..
next
  case False
  then obtain a where "a \<in> set x" "\<not> isWhiteSpace a" by blast
  then have "dropWhile isWhiteSpace (x @ [c]) = dropWhile isWhiteSpace x @ [c]"
    by (rule dropWhile_append1)
  with c show ?thesis by (simp add: trim_def)
qed

lemma toLowerCase_trim: "toLowerCase (trim x) = trim (toLowerCase x)"
proof -
  have ws: "isWhiteSpace \<circ> toLowerChar = isWhiteSpace"
    by (rule ext) (simp add: isWhiteSpace_lower)
  show ?thesis
    by (simp add: toLowerCase_def trim_def rev_map dropWhile_map ws)
qed

lemma sameText_normalize:
  "sameText x y \<Longrightarrow> toLowerCase (trim x) = toLowerCase (trim y)"
proof (induction rule: sameText.induct)
  case (letters x y)
  then have "toLowerCase x = toLowerCase y"
    unfolding toLowerCase_def
    by (induction rule: list_all2_induct) (simp_all add: caseVariant_lower)
  then show ?case by (simp add: toLowerCase_trim)
qed (simp_all add: trim_Cons_ws trim_snoc_ws)

lemma normalizeKeyPart_Some: "normalizeKeyPart (Some s) = toLowerCase (trim s)"
  by (cases "s = []") (simp_all add: normalizeKeyPart_def orElse_def)

lemma normalizeKeyPart_same:
  assumes "sameOptText a b" and "truthy a = truthy b"
  shows "normalizeKeyPart (orElse a dflt) = normalizeKeyPart (orElse b dflt)"
proof (cases "truthy a")
  case True
  with assms obtain x y where "a = Some x" "b = Some y" "sameText x y" "x \<noteq> []" "y \<noteq> []"
    by (cases a; cases b) auto
  then show ?thesis
    by (simp add: normalizeKeyPart_Some orElse_def sameText_normalize)
next
  case False
  with assms show ?thesis by (simp add: orElse_def)
qed

lemma keyPart_same:
  assumes "sameOptionValue a b" and "truthy (ov_optionName a) = truthy (ov_optionName b)"
  shows "keyPart a = keyPart b"
proof -
  from assms have n: "normalizeKeyPart (orElse (ov_optionName a) (Some DEFAULT_OPTION_NAME))
      = normalizeKeyPart (orElse (ov_optionName b) (Some DEFAULT_OPTION_NAME))"
    by (intro normalizeKeyPart_same) (simp_all add: sameOptionValue_def)
  from assms have "sameText (ov_name a) (ov_name b)" by (simp add: sameOptionValue_def)
  then have "normalizeKeyPart (Some (ov_name a)) = normalizeKeyPart (Some (ov_name b))"
    by (simp add: normalizeKeyPart_Some sameText_normalize)
  with n show ?thesis by (simp add: keyPart_def)
qed

lemma caseVariant_ws:
  assumes "caseVariant c d"
  shows "isWhiteSpace c = isWhiteSpace d"
proof -
  from assms consider "c = d"
    | "(c, d) \<in> set (zip ''ABCDEFGHIJKLMNOPQRSTUVWXYZ'' ''abcdefghijklmnopqrstuvwxyz'')"
    | "(d, c) \<in> set (zip ''ABCDEFGHIJKLMNOPQRSTUVWXYZ'' ''abcdefghijklmnopqrstuvwxyz'')"
    unfolding caseVariant_def by blast
  then show ?thesis
  proof cases
    case 1
    then show ?thesis by simp
  next
    case 2
    from zip_lower[OF this] show ?thesis by simp
  next
    case 3
    from zip_lower[OF this] show ?thesis by simp
  qed
qed

lemma caseVariant_sym: "caseVariant c d \<Longrightarrow> caseVariant d c"
  unfolding caseVariant_def by blast

lemma list_all2_dropWhile_ws:
  "list_all2 caseVariant xs ys \<Longrightarrow>
     list_all2 caseVariant (dropWhile isWhiteSpace xs) (dropWhile isWhiteSpace ys)"
  by (induction rule: list_all2_induct) (auto dest: caseVariant_ws)

lemma list_all2_trim:
  assumes "list_all2 caseVariant x y"
  shows "list_all2 caseVariant (trim x) (trim y)"
proof -
  have "list_all2 caseVariant (rev (dropWhile isWhiteSpace x)) (rev (dropWhile isWhiteSpace y))"
    using list_all2_dropWhile_ws[OF assms] by (simp only: list_all2_rev)
  then have "list_all2 caseVariant
       (rev (dropWhile isWhiteSpace (rev (dropWhile isWhiteSpace x))))
       (rev (dropWhile isWhiteSpace (rev (dropWhile isWhiteSpace y))))"
    using list_all2_dropWhile_ws by (simp only: list_all2_rev)
  then show ?thesis by (simp only: trim_def)
qed

lemma sameText_padFront:
  "sameText a b \<Longrightarrow> \<forall>c\<in>set l. isWhiteSpace c \<Longrightarrow> sameText (l @ a) b"
  by (induction l) (auto intro: sameText.padFrontL)

lemma sameText_padBack:
  "sameText a b \<Longrightarrow> \<forall>c\<in>set r. isWhiteSpace c \<Longrightarrow> sameText (a @ r) b"
proof (induction r rule: rev_induct)
  case Nil
  then show ?case by simp
next
  case (snoc c r)
  then have "sameText (a @ r) b" "isWhiteSpace c" by auto
  then have "sameText ((a @ r) @ [c]) b" by (rule sameText.padBackL[rotated])
  then show ?case by simp
qed

lemma sameText_sym: "sameText x y \<Longrightarrow> sameText y x"
proof (induction rule: sameText.induct)
  case (letters x y)
  then have "list_all2 caseVariant y x"
    by (induction rule: list_all2_induct) (auto intro: caseVariant_sym)
  then show ?case by (rule sameText.letters)
qed (auto intro: sameText.intros)

lemma trim_decompose:
  "\<exists>l r. x = l @ trim x @ r \<and> (\<forall>c\<in>set l. isWhiteSpace c) \<and> (\<forall>c\<in>set r. isWhiteSpace c)"
proof -
  let ?d = "dropWhile isWhiteSpace x"
  let ?l = "takeWhile isWhiteSpace x"
  let ?r = "rev (takeWhile isWhiteSpace (rev ?d))"
  have "rev ?d = takeWhile isWhiteSpace (rev ?d) @ dropWhile isWhiteSpace (rev ?d)"
    by simp
  then have "rev (rev ?d) = rev (takeWhile isWhiteSpace (rev ?d) @ dropWhile isWhiteSpace (rev ?d))"
    by (rule arg_cong)
  then have "?d = trim x @ ?r" by (simp only: rev_rev_ident rev_append trim_def)
  moreover have "x = ?l @ ?d" by simp
  ultimately have "x = ?l @ trim x @ ?r" by simp
  moreover have "\<forall>c\<in>set ?l. isWhiteSpace c" by (auto dest: set_takeWhileD)
  moreover have "\<forall>c\<in>set ?r. isWhiteSpace c" by (auto dest: set_takeWhileD)
  ultimately show ?thesis by blast
qed

text \<open>The relation is equality up to case of the trimmed strings; this equation also makes
  it executable.\<close>

lemma sameText_iff [code]: "sameText x y \<longleftrightarrow> list_all2 caseVariant (trim x) (trim y)"
proof
  assume "sameText x y"
  then show "list_all2 caseVariant (trim x) (trim y)"
    by (induction rule: sameText.induct) (simp_all add: list_all2_trim trim_Cons_ws trim_snoc_ws)
next
  assume "list_all2 caseVariant (trim x) (trim y)"
  then have t: "sameText (trim x) (trim y)" by (rule sameText.letters)
  obtain l r where x: "x = l @ trim x @ r" "\<forall>c\<in>set l. isWhiteSpace c" "\<forall>c\<in>set r. isWhiteSpace c"
    using trim_decompose[of x] by blast
  obtain l' r' where y: "y = l' @ trim y @ r'" "\<forall>c\<in>set l'. isWhiteSpace c" "\<forall>c\<in>set r'. isWhiteSpace c"
    using trim_decompose[of y] by blast
  have "sameText (l @ trim x @ r) (trim y)"
    using sameText_padFront[OF sameText_padBack[OF t x(3)] x(2)] by simp
  then have "sameText (trim y) (l @ trim x @ r)" by (rule sameText_sym)
  then have "sameText (l' @ trim y @ r') (l @ trim x @ r)"
    using sameText_padFront[OF sameText_padBack[OF _ y(3)] y(2)] by simp
  then have "sameText (l @ trim x @ r) (l' @ trim y @ r')" by (rule sameText_sym)
  with x(1) y(1) show "sameText x y" by simp
qed

section \<open>Variant keys\<close>

text \<open>
  Claim C4, as the code has it. \<open>buildVariantKey\<close> is a function of its two arguments.
  When two lists of option values are componentwise equal up to letter case and
  surrounding white space (option names and option values), the two SKUs are equal up to
  letter case and surrounding white space, and moreover every option name and the SKU is
  empty or absent on both sides or on neither, then the two keys are identical. The
  extra condition is needed because the default option name and the guard of the SKU
  segment test the raw string, before it is trimmed.
\<close>

theorem buildVariantKey_insensitive:
  assumes "list_all2 sameOptionValue ovs ovs'"
    and "list_all2 (\<lambda>a b. truthy (ov_optionName a) = truthy (ov_optionName b)) ovs ovs'"
    and "sameOptText sku sku'"
    and "truthy sku = truthy sku'"
  shows "buildVariantKey ovs sku = buildVariantKey ovs' sku'"
proof -
  from assms(1,2) have parts: "map keyPart ovs = map keyPart ovs'"
  proof (induction arbitrary: rule: list_all2_induct)
    case Nil
    then show ?case by simp
  next
    case (Cons a as b bs)
    then show ?case by (simp add: keyPart_same)
  qed
  have "normalizeKeyPart (orElse sku (Some [])) = normalizeKeyPart (orElse sku' (Some []))"
    using assms(3,4) by (rule normalizeKeyPart_same)
  then have "truthy sku \<Longrightarrow> normalizeKeyPart sku = normalizeKeyPart sku'"
    using assms(4) by (simp add: orElse_def)
  with parts assms(4) show ?thesis
    by (simp add: buildVariantKey_def Let_def)
qed

text \<open>
  The example of the specification: option \<open>Color\<close> with value \<open>" Red "\<close> against
  option \<open>color\<close> with value \<open>"red"\<close>, here also with SKUs that differ in case and in
  a trailing space.
\<close>

theorem buildVariantKey_insensitive_witness:
  "buildVariantKey [\<lparr>ov_optionName = Some ''Color'', ov_name = '' Red ''\<rparr>] (Some ''AB-1 '')
     = buildVariantKey [\<lparr>ov_optionName = Some ''color'', ov_name = ''red''\<rparr>] (Some ''ab-1'')"
proof (rule buildVariantKey_insensitive)
  have ws: "isWhiteSpace CHR '' ''" by (simp add: isWhiteSpace_def)
  have "sameText ''Red'' ''red''"
    by (rule sameText.letters) (simp add: caseVariant_def)
  then have "sameText (''Red'' @ [CHR '' '']) ''red''"
    using ws by (rule sameText.padBackL[rotated])
  then have red: "sameText (CHR '' '' # ''Red'' @ [CHR '' '']) ''red''"
    using ws by (rule sameText.padFrontL[rotated])
  have color: "sameText ''Color'' ''color''"
    by (rule sameText.letters) (simp add: caseVariant_def)
  show "list_all2 sameOptionValue [\<lparr>ov_optionName = Some ''Color'', ov_name = '' Red ''\<rparr>]
     [\<lparr>ov_optionName = Some ''color'', ov_name = ''red''\<rparr>]"
    using red color by (simp add: sameOptionValue_def)
  show "list_all2 (\<lambda>a b. truthy (ov_optionName a) = truthy (ov_optionName b))
     [\<lparr>ov_optionName = Some ''Color'', ov_name = '' Red ''\<rparr>]
     [\<lparr>ov_optionName = Some ''color'', ov_name = ''red''\<rparr>]"
    by simp
  have "sameText ''AB-1'' ''ab-1''"
    by (rule sameText.letters) (simp add: caseVariant_def)
  then have "sameText (''AB-1'' @ [CHR '' '']) ''ab-1''"
    using ws by (rule sameText.padBackL[rotated])
  then show "sameOptText (Some ''AB-1 '') (Some ''ab-1'')" by simp
  show "truthy (Some ''AB-1 '') = truthy (Some ''ab-1'')" by simp
qed

text \<open>
  Without the extra condition the statement of claim C4 fails: the SKUs \<open>" "\<close> and
  \<open>""\<close> are equal up to surrounding white space, but the first is truthy and adds the
  segment \<open>sku=\<close> to the key, the second adds nothing. Likewise the option name
  \<open>" "\<close> is kept and trimmed to the empty name, while \<open>""\<close> is replaced by the default
  name.
\<close>

theorem buildVariantKey_blank_counterexample:
  "sameOptText (Some '' '') (Some [])
   \<and> list_all2 sameOptionValue [] []
   \<and> buildVariantKey [] (Some '' '') \<noteq> buildVariantKey [] (Some [])
   \<and> list_all2 sameOptionValue
         [\<lparr>ov_optionName = Some '' '', ov_name = ''x''\<rparr>]
         [\<lparr>ov_optionName = Some [], ov_name = ''x''\<rparr>]
   \<and> buildVariantKey [\<lparr>ov_optionName = Some '' '', ov_name = ''x''\<rparr>] None
       \<noteq> buildVariantKey [\<lparr>ov_optionName = Some [], ov_name = ''x''\<rparr>] None"
proof -
  have "sameText [] []" by (rule sameText.letters) simp
  then have blank: "sameText [CHR '' ''] []"
    by (rule sameText.padFrontL[rotated]) (simp add: isWhiteSpace_def)
  have x: "sameText ''x'' ''x''" by (rule sameText.letters) (simp add: caseVariant_def)
  have "buildVariantKey [] (Some '' '') = ''sku=''" "buildVariantKey [] (Some []) = []"
    "buildVariantKey [\<lparr>ov_optionName = Some '' '', ov_name = ''x''\<rparr>] None = ''=x''"
    "buildVariantKey [\<lparr>ov_optionName = Some [], ov_name = ''x''\<rparr>] None = ''title=x''"
    by code_simp+
  with blank x show ?thesis by (simp add: sameOptionValue_def)
qed

section \<open>The Shopify payload\<close>

lemma arrayFromSet_snoc: "arrayFromSet (xs @ [x]) = setAdd (arrayFromSet xs) x"
  by (simp add: arrayFromSet_def)

lemma arrayFromSet_Nil: "arrayFromSet [] = []"
  by (simp add: arrayFromSet_def)

lemma set_arrayFromSet: "set (arrayFromSet xs) = set xs"
  by (induction xs rule: rev_induct) (auto simp: arrayFromSet_snoc arrayFromSet_Nil setAdd_def)

lemma distinct_arrayFromSet: "distinct (arrayFromSet xs)"
  by (induction xs rule: rev_induct) (auto simp: arrayFromSet_snoc arrayFromSet_Nil setAdd_def)

lemma firstOccurrences_Nil: "firstOccurrences key [] = []"
  by (simp add: firstOccurrences_def)

lemma firstOccurrences_snoc:
  "firstOccurrences key (vs @ [v]) =
     firstOccurrences key vs @ (if key v \<in> key ` set vs then [] else [v])"
proof -
  have "filter (\<lambda>i. key ((vs @ [v]) ! i) \<notin> key ` set (take i (vs @ [v]))) [0..<length vs]
      = filter (\<lambda>i. key (vs ! i) \<notin> key ` set (take i vs)) [0..<length vs]"
    by (rule filter_cong) (simp_all add: nth_append)
  moreover have "map (\<lambda>i. (vs @ [v]) ! i)
        (filter (\<lambda>i. key (vs ! i) \<notin> key ` set (take i vs)) [0..<length vs])
      = map (\<lambda>i. vs ! i) (filter (\<lambda>i. key (vs ! i) \<notin> key ` set (take i vs)) [0..<length vs])"
    by (rule map_cong) (simp_all add: nth_append)
  ultimately show ?thesis
    by (simp add: firstOccurrences_def)
qed

lemma set_firstOccurrences: "key ` set (firstOccurrences key vs) = key ` set vs"
  by (induction vs rule: rev_induct) (auto simp: firstOccurrences_Nil firstOccurrences_snoc)

lemma distinct_firstOccurrences: "distinct (map key (firstOccurrences key vs))"
proof (induction vs rule: rev_induct)
  case Nil
  then show ?case by (simp add: firstOccurrences_Nil)
next
  case (snoc v vs)
  have "key v \<notin> key ` set vs \<Longrightarrow> key v \<notin> key ` set (firstOccurrences key vs)"
    by (simp add: set_firstOccurrences)
  with snoc show ?case by (simp add: firstOccurrences_snoc)
qed

lemma length_firstOccurrences: "length (firstOccurrences key vs) = card (key ` set vs)"
proof -
  have "card (key ` set vs) = card (set (map key (firstOccurrences key vs)))"
    by (simp add: set_firstOccurrences)
  also have "\<dots> = length (map key (firstOccurrences key vs))"
    by (rule distinct_card) (rule distinct_firstOccurrences)
  finally show ?thesis by simp
qed

lemma arrayFromSet_firstOccurrences: "arrayFromSet xs = firstOccurrences (\<lambda>x. x) xs"
proof (induction xs rule: rev_induct)
  case Nil
  then show ?case by (simp add: arrayFromSet_Nil firstOccurrences_Nil)
next
  case (snoc x xs)
  have "set (firstOccurrences (\<lambda>x. x) xs) = set xs"
    using set_firstOccurrences[of "\<lambda>x. x" xs] by simp
  with snoc show ?case
    by (simp add: arrayFromSet_snoc firstOccurrences_snoc setAdd_def)
qed

lemma foldl_variantStep:
  "foldl (variantStep p) ({}, []) vs =
     (variantKeyOf p ` set vs, map (rawPayloadOf p) (firstOccurrences (variantKeyOf p) vs))"
  by (induction vs rule: rev_induct)
     (simp_all add: firstOccurrences_Nil firstOccurrences_snoc variantStep_def insert_absorb)


lemma rawVariantPayloads_deduped:
  "rawVariantPayloads p = map (rawPayloadOf p) (dedupedVariants p)"
  by (simp add: rawVariantPayloads_def foldl_variantStep dedupedVariants_def)

lemma firstOccurrences_distinct:
  "distinct (map key vs) \<Longrightarrow> firstOccurrences key vs = vs"
  by (induction vs rule: rev_induct) (simp_all add: firstOccurrences_Nil firstOccurrences_snoc)

lemma firstOccurrences_duplicate:
  "key d \<in> key ` set xs \<Longrightarrow>
     firstOccurrences key (xs @ d # ys) = firstOccurrences key (xs @ ys)"
proof (induction ys rule: rev_induct)
  case Nil
  then show ?case using firstOccurrences_snoc[of key xs d] by simp
next
  case (snoc y ys)
  have S: "key ` set (xs @ d # ys) = key ` set (xs @ ys)"
    using snoc.prems by auto
  have "firstOccurrences key (xs @ d # ys @ [y]) = firstOccurrences key ((xs @ d # ys) @ [y])"
    by simp
  also have "\<dots> = firstOccurrences key (xs @ d # ys)
       @ (if key y \<in> key ` set (xs @ d # ys) then [] else [y])"
    by (rule firstOccurrences_snoc)
  also have "\<dots> = firstOccurrences key (xs @ ys)
       @ (if key y \<in> key ` set (xs @ ys) then [] else [y])"
    by (simp only: S snoc.IH[OF snoc.prems])
  also have "\<dots> = firstOccurrences key ((xs @ ys) @ [y])"
    by (rule firstOccurrences_snoc[symmetric])
  finally show ?case by simp
qed

lemma keyPart_default:
  "keyPart \<lparr>ov_optionName = Some DEFAULT_OPTION_NAME, ov_name = DEFAULT_OPTION_VALUE\<rparr>
     = ''title=default title''"
  by code_simp

lemma variantKeyOf_plain:
  "s \<noteq> [] \<Longrightarrow> variantKeyOf (plainProduct skus) (plainVariant s)
     = ''title=default title|sku='' @ normalizeKeyPart (Some s)"
  by (simp add: variantKeyOf_def optionValuesOf_def hasDefinedOptions_def inferredOptions_def
      plainProduct_def plainVariant_def buildVariantKey_def keyPart_default)


lemma d150: "distinct (map (\<lambda>s. normalizeKeyPart (Some s)) skus150)"
  by code_simp

lemma l150: "length skus150 = 150"
  by code_simp

lemma ne150: "list_all (\<lambda>s. s \<noteq> []) skus150"
  by code_simp

lemma keys_plain:
  assumes "list_all (\<lambda>s. s \<noteq> []) skus"
    and "distinct (map (\<lambda>s. normalizeKeyPart (Some s)) skus)"
  shows "dedupedVariants (plainProduct skus) = map plainVariant skus"
proof -
  have "map (variantKeyOf (plainProduct skus)) (map plainVariant skus)
      = map (\<lambda>s. ''title=default title|sku='' @ normalizeKeyPart (Some s)) skus"
    using assms(1) by (simp add: list_all_iff variantKeyOf_plain)
  also have "\<dots> = map ((@) ''title=default title|sku='') (map (\<lambda>s. normalizeKeyPart (Some s)) skus)"
    by simp
  finally have "distinct (map (variantKeyOf (plainProduct skus)) (map plainVariant skus))"
    using assms(2) by (simp only: distinct_map) (auto simp: inj_on_def)
  then have "firstOccurrences (variantKeyOf (plainProduct skus)) (map plainVariant skus)
      = map plainVariant skus"
    by (rule firstOccurrences_distinct)
  then show ?thesis by (simp add: dedupedVariants_def plainProduct_def)
qed

text \<open>
  Claim C1. For every canonical product the payload has at most 100 variant inputs, and
  they are the inputs of the first 100 variants of the deduplicated variant list, in
  input order. When the deduplicated list has \<open>n > 100\<close> entries, exactly 100 variant
  inputs are returned and \<open>meta.droppedVariants\<close> is \<open>n - 100\<close>; in particular 150
  deduplicated variants give 100 variant inputs and \<open>meta.droppedVariants = 50\<close>.
\<close>

theorem variant_cap:
  "length (variantInputs (buildShopifyProductInputFromEbay p)) \<le> 100
   \<and> variantInputs (buildShopifyProductInputFromEbay p)
       = map (\<lambda>v. rp_input (rawPayloadOf p v)) (take 100 (dedupedVariants p))
   \<and> (length (dedupedVariants p) > 100 \<longrightarrow>
        length (variantInputs (buildShopifyProductInputFromEbay p)) = 100
        \<and> meta (buildShopifyProductInputFromEbay p)
            = Some \<lparr>droppedVariants = length (dedupedVariants p) - 100\<rparr>)
   \<and> (length (dedupedVariants p) = 150 \<longrightarrow>
        length (variantInputs (buildShopifyProductInputFromEbay p)) = 100
        \<and> meta (buildShopifyProductInputFromEbay p) = Some \<lparr>droppedVariants = 50\<rparr>)"
  by (simp add: buildShopifyProductInputFromEbay_def Let_def rawVariantPayloads_deduped
      MAX_SHOPIFY_VARIANTS_def take_map)

text \<open>A product with 150 variants of pairwise different keys.\<close>

theorem variant_cap_witness:
  "length (dedupedVariants (plainProduct skus150)) = 150
   \<and> length (variantInputs (buildShopifyProductInputFromEbay (plainProduct skus150))) = 100
   \<and> meta (buildShopifyProductInputFromEbay (plainProduct skus150))
       = Some \<lparr>droppedVariants = 50\<rparr>"
proof -
  have n: "length (dedupedVariants (plainProduct skus150)) = 150"
    using keys_plain[OF ne150 d150] l150 by simp
  with variant_cap[of "plainProduct skus150"] show ?thesis by simp
qed

lemma po_name_inferredOption: "po_name (inferredOption vs name i) = name"
  by (simp add: inferredOption_def Let_def)

lemma map_po_name_inferredOptions:
  "map (\<lambda>option. F (po_name option)) (inferredOptions p) = map F (p_optionsOrder p)"
proof -
  have "map (\<lambda>option. F (po_name option)) (inferredOptions p)
      = map (F \<circ> snd) (enumerate 0 (p_optionsOrder p))"
    by (simp add: inferredOptions_def po_name_inferredOption case_prod_unfold comp_def)
  also have "\<dots> = map F (map snd (enumerate 0 (p_optionsOrder p)))"
    by (simp only: map_map)
  also have "\<dots> = map F (p_optionsOrder p)"
    by (simp only: map_snd_enumerate)
  finally show ?thesis .
qed

lemma hasDefinedOptions_iff: "hasDefinedOptions p \<longleftrightarrow> p_optionsOrder p \<noteq> []"
  by (simp add: hasDefinedOptions_def inferredOptions_def)

lemma optionValuesOf_names:
  "optionValuesOf p v =
     (if p_optionsOrder p \<noteq> []
      then map (\<lambda>n. \<lparr>ov_optionName = Some n,
                      ov_name = (case v_options v n of Some value \<Rightarrow> value
                                 | None \<Rightarrow> fallbackOptionValue n)\<rparr>) (p_optionsOrder p)
      else [\<lparr>ov_optionName = Some DEFAULT_OPTION_NAME, ov_name = DEFAULT_OPTION_VALUE\<rparr>])"
  unfolding optionValuesOf_def productOptions_def hasDefinedOptions_iff
  by (simp add: map_po_name_inferredOptions
      [of "\<lambda>n. \<lparr>ov_optionName = Some n,
                      ov_name = (case v_options v n of Some value \<Rightarrow> value
                                 | None \<Rightarrow> fallbackOptionValue n)\<rparr>"])

lemma rawPayloadOf_variants:
  "rawPayloadOf (p\<lparr>p_variants := vs\<rparr>) = rawPayloadOf p"
  by (rule ext) (simp add: rawPayloadOf_def variantKeyOf_def optionValuesOf_names)

lemma variantKeyOf_variants:
  "variantKeyOf (p\<lparr>p_variants := vs\<rparr>) = variantKeyOf p"
  by (rule ext) (simp add: variantKeyOf_def optionValuesOf_names)

lemma payload_variantInputs:
  "variantInputs (buildShopifyProductInputFromEbay p)
     = map (\<lambda>v. rp_input (rawPayloadOf p v)) (take 100 (dedupedVariants p))"
  by (simp add: buildShopifyProductInputFromEbay_def Let_def rawVariantPayloads_deduped
      MAX_SHOPIFY_VARIANTS_def take_map)

lemma payload_variantAssets:
  "variantAssets (buildShopifyProductInputFromEbay p)
     = map (\<lambda>v. \<lparr>va_key = variantKeyOf p v, va_imageUrls = imageSources v\<rparr>)
         (take 100 (dedupedVariants p))"
  by (simp add: buildShopifyProductInputFromEbay_def Let_def rawVariantPayloads_deduped
      MAX_SHOPIFY_VARIANTS_def take_map rawPayloadOf_def)

lemma payload_meta:
  "meta (buildShopifyProductInputFromEbay p)
     = (if length (dedupedVariants p) > 100
        then Some \<lparr>droppedVariants = length (dedupedVariants p) - 100\<rparr> else None)"
  by (simp add: buildShopifyProductInputFromEbay_def Let_def rawVariantPayloads_deduped
      MAX_SHOPIFY_VARIANTS_def)

lemma dedupedVariants_duplicate:
  assumes "p_variants p = xs @ d # ys" and "variantKeyOf p d \<in> variantKeyOf p ` set xs"
  shows "dedupedVariants (p\<lparr>p_variants := xs @ ys\<rparr>) = dedupedVariants p"
  using assms by (simp add: dedupedVariants_def variantKeyOf_variants firstOccurrences_duplicate)

text \<open>
  Claim C3. The variant inputs and the variant assets of the payload come from the
  deduplicated variant list, which keeps of the variants with one key only the first in
  input order; the keys of the returned assets are pairwise different. A later variant
  with a key already seen leaves no trace in the diagnostics: \<open>meta.droppedVariants\<close>
  counts only the different keys beyond 100, and \<open>meta\<close> has no other field. Removing
  such a later duplicate from the input changes neither \<open>variantInputs\<close> nor
  \<open>variantAssets\<close> nor \<open>meta\<close>.
\<close>

theorem duplicates_dropped:
  "variantInputs (buildShopifyProductInputFromEbay p)
       = map (\<lambda>v. rp_input (rawPayloadOf p v)) (take 100 (dedupedVariants p))
   \<and> variantAssets (buildShopifyProductInputFromEbay p)
       = map (\<lambda>v. \<lparr>va_key = variantKeyOf p v, va_imageUrls = imageSources v\<rparr>)
           (take 100 (dedupedVariants p))
   \<and> distinct (map va_key (variantAssets (buildShopifyProductInputFromEbay p)))
   \<and> meta (buildShopifyProductInputFromEbay p)
       = (if card (variantKeyOf p ` set (p_variants p)) > 100
          then Some \<lparr>droppedVariants = card (variantKeyOf p ` set (p_variants p)) - 100\<rparr>
          else None)
   \<and> (\<forall>xs d ys. p_variants p = xs @ d # ys \<and> variantKeyOf p d \<in> variantKeyOf p ` set xs \<longrightarrow>
         variantInputs (buildShopifyProductInputFromEbay p)
           = variantInputs (buildShopifyProductInputFromEbay (p\<lparr>p_variants := xs @ ys\<rparr>))
         \<and> variantAssets (buildShopifyProductInputFromEbay p)
           = variantAssets (buildShopifyProductInputFromEbay (p\<lparr>p_variants := xs @ ys\<rparr>))
         \<and> meta (buildShopifyProductInputFromEbay p)
           = meta (buildShopifyProductInputFromEbay (p\<lparr>p_variants := xs @ ys\<rparr>)))"
proof (intro conjI allI impI)
  show "variantInputs (buildShopifyProductInputFromEbay p)
       = map (\<lambda>v. rp_input (rawPayloadOf p v)) (take 100 (dedupedVariants p))"
    by (rule payload_variantInputs)
  show "variantAssets (buildShopifyProductInputFromEbay p)
       = map (\<lambda>v. \<lparr>va_key = variantKeyOf p v, va_imageUrls = imageSources v\<rparr>)
           (take 100 (dedupedVariants p))"
    by (rule payload_variantAssets)
  have "map va_key (variantAssets (buildShopifyProductInputFromEbay p))
      = take 100 (map (variantKeyOf p) (dedupedVariants p))"
    by (simp add: payload_variantAssets take_map comp_def)
  then show "distinct (map va_key (variantAssets (buildShopifyProductInputFromEbay p)))"
    by (simp add: dedupedVariants_def distinct_firstOccurrences distinct_take)
  show "meta (buildShopifyProductInputFromEbay p)
       = (if card (variantKeyOf p ` set (p_variants p)) > 100
          then Some \<lparr>droppedVariants = card (variantKeyOf p ` set (p_variants p)) - 100\<rparr>
          else None)"
    by (simp add: payload_meta dedupedVariants_def length_firstOccurrences)
next
  fix xs d ys
  assume "p_variants p = xs @ d # ys \<and> variantKeyOf p d \<in> variantKeyOf p ` set xs"
  then have D: "dedupedVariants (p\<lparr>p_variants := xs @ ys\<rparr>) = dedupedVariants p"
    by (simp add: dedupedVariants_duplicate)
  show "variantInputs (buildShopifyProductInputFromEbay p)
           = variantInputs (buildShopifyProductInputFromEbay (p\<lparr>p_variants := xs @ ys\<rparr>))"
    by (simp only: payload_variantInputs D rawPayloadOf_variants)
  show "variantAssets (buildShopifyProductInputFromEbay p)
           = variantAssets (buildShopifyProductInputFromEbay (p\<lparr>p_variants := xs @ ys\<rparr>))"
    by (simp only: payload_variantAssets D variantKeyOf_variants)
  show "meta (buildShopifyProductInputFromEbay p)
           = meta (buildShopifyProductInputFromEbay (p\<lparr>p_variants := xs @ ys\<rparr>))"
    by (simp only: payload_meta D)
qed

text \<open>
  Three variants, the third with the key of the first (its SKU and option value differ
  only in case and surrounding spaces).
\<close>

theorem duplicates_dropped_witness:
  "variantKeyOf shirt shirtRedAgain \<in> variantKeyOf shirt ` set [shirtRed, shirtBlue]
   \<and> variantInputs (buildShopifyProductInputFromEbay shirt)
       = variantInputs (buildShopifyProductInputFromEbay (shirt\<lparr>p_variants := [shirtRed, shirtBlue]\<rparr>))
   \<and> variantAssets (buildShopifyProductInputFromEbay shirt)
       = variantAssets (buildShopifyProductInputFromEbay (shirt\<lparr>p_variants := [shirtRed, shirtBlue]\<rparr>))
   \<and> meta (buildShopifyProductInputFromEbay shirt) = None"
proof -
  have k: "variantKeyOf shirt shirtRedAgain \<in> variantKeyOf shirt ` set [shirtRed, shirtBlue]"
    by code_simp
  have v: "p_variants shirt = [shirtRed, shirtBlue] @ shirtRedAgain # []"
    by (simp add: shirt_def)
  have m: "meta (buildShopifyProductInputFromEbay (shirt\<lparr>p_variants := [shirtRed, shirtBlue]\<rparr>)) = None"
    by code_simp
  note d = duplicates_dropped[of shirt, THEN conjunct2, THEN conjunct2, THEN conjunct2,
      THEN conjunct2, rule_format, of "[shirtRed, shirtBlue]" shirtRedAgain "[]", OF conjI[OF v k]]
  from d k m show ?thesis by simp
qed

lemma comprehension_Some:
  "[src. Some src \<leftarrow> map Some urls @ [fallback], src \<noteq> []]
     = filter (\<lambda>u. u \<noteq> []) (urls @ (case fallback of Some u \<Rightarrow> [u] | None \<Rightarrow> []))"
  by (induction urls) (auto split: option.splits)

lemma imageSources_candidates:
  "imageSources v = firstOccurrences (\<lambda>u. u) (filter (\<lambda>u. u \<noteq> []) (variantImageCandidates v))"
  by (simp only: imageSources_def comprehension_Some variantImageCandidates_def
      arrayFromSet_firstOccurrences)

text \<open>
  Claim C10. \<open>variantInputs\<close> and \<open>variantAssets\<close> have the same length, that of the
  kept variants, and correspond position by position: the key of the asset at \<open>i\<close> is
  \<open>buildVariantKey\<close> of the option values and the SKU of the input at \<open>i\<close>; its
  images are the deduplicated non-empty images of the kept variant at \<open>i\<close>, the
  variant's \<open>imageUrls\<close> first and its single \<open>imageUrl\<close> after them; and
  \<open>mediaSrc\<close> of the input holds the first of these images alone, or is absent when
  there is none.
\<close>

theorem inputs_assets_correspond:
  assumes "r = buildShopifyProductInputFromEbay p" and "kept = take 100 (dedupedVariants p)"
  shows "length (variantInputs r) = length (variantAssets r)
   \<and> length (variantInputs r) = length kept
   \<and> (\<forall>i < length (variantInputs r).
         va_key (variantAssets r ! i)
           = buildVariantKey (vi_optionValues (variantInputs r ! i))
               (ii_sku (vi_inventoryItem (variantInputs r ! i)))
         \<and> va_imageUrls (variantAssets r ! i)
           = firstOccurrences (\<lambda>u. u) (filter (\<lambda>u. u \<noteq> []) (variantImageCandidates (kept ! i)))
         \<and> vi_mediaSrc (variantInputs r ! i)
           = (case va_imageUrls (variantAssets r ! i) of [] \<Rightarrow> None | first # _ \<Rightarrow> Some [first]))"
proof -
  have I: "variantInputs r = map (\<lambda>v. rp_input (rawPayloadOf p v)) kept"
    using assms by (simp add: payload_variantInputs)
  have A: "variantAssets r = map (\<lambda>v. \<lparr>va_key = variantKeyOf p v, va_imageUrls = imageSources v\<rparr>) kept"
    using assms by (simp add: payload_variantAssets)
  show ?thesis
    by (simp add: I A rawPayloadOf_def variantKeyOf_def mediaSrcOf_def imageSources_candidates)
qed

text \<open>The first variant of the example has the images \<open>u2, u1, "", u2\<close> and the
  fallback \<open>u1\<close>; the second has none.\<close>

theorem inputs_assets_correspond_witness:
  "length (variantInputs (buildShopifyProductInputFromEbay shirt)) = 2
   \<and> length (variantAssets (buildShopifyProductInputFromEbay shirt)) = 2
   \<and> va_key (variantAssets (buildShopifyProductInputFromEbay shirt) ! 0) = ''color=red|sku=a1''
   \<and> va_imageUrls (variantAssets (buildShopifyProductInputFromEbay shirt) ! 0) = [''u2'', ''u1'']
   \<and> vi_mediaSrc (variantInputs (buildShopifyProductInputFromEbay shirt) ! 0) = Some [''u2'']
   \<and> vi_mediaSrc (variantInputs (buildShopifyProductInputFromEbay shirt) ! 1) = None"
proof -
  have n: "length (variantInputs (buildShopifyProductInputFromEbay shirt)) = 2"
    by code_simp
  have k: "buildVariantKey (vi_optionValues (variantInputs (buildShopifyProductInputFromEbay shirt) ! 0))
       (ii_sku (vi_inventoryItem (variantInputs (buildShopifyProductInputFromEbay shirt) ! 0)))
       = ''color=red|sku=a1''"
    by code_simp
  have u: "va_imageUrls (variantAssets (buildShopifyProductInputFromEbay shirt) ! 0) = [''u2'', ''u1'']"
    "va_imageUrls (variantAssets (buildShopifyProductInputFromEbay shirt) ! 1) = []"
    by code_simp+
  from inputs_assets_correspond[OF refl refl, of shirt] n k u show ?thesis
    by simp
qed

section \<open>The import of a batch\<close>

lemma recordResult_take:
  "length c \<le> 50 \<Longrightarrow> recordResult (rs, c) r = (rs @ [r], take 50 (r # c))"
proof (cases "length c = 50")
  case True
  have "butlast (r # c) = take (length c) (r # c)"
    using butlast_conv_take[of "r # c"] by simp
  with True show ?thesis by (simp add: recordResult_def)
next
  case False
  assume "length c \<le> 50"
  with False have "length c < 50" by simp
  then show ?thesis by (simp add: recordResult_def)
qed

lemma take_append_take: "take n (xs @ take n ys) = take n (xs @ ys)"
  by (simp add: min_def)

lemma foldl_recordResult:
  "length c \<le> 50 \<Longrightarrow>
     foldl (\<lambda>st url. recordResult st (f url)) (rs, c) urls
       = (rs @ map f urls, take 50 (rev (map f urls) @ c))"
proof (induction urls arbitrary: rs c)
  case Nil
  then show ?case by simp
next
  case (Cons u urls)
  have "foldl (\<lambda>st url. recordResult st (f url)) (rs, c) (u # urls)
      = foldl (\<lambda>st url. recordResult st (f url)) (rs @ [f u], take 50 (f u # c)) urls"
    using Cons.prems by (simp only: foldl_Cons recordResult_take)
  also have "\<dots> = ((rs @ [f u]) @ map f urls, take 50 (rev (map f urls) @ take 50 (f u # c)))"
    by (rule Cons.IH) simp
  also have "take 50 (rev (map f urls) @ take 50 (f u # c)) = take 50 (rev (map f urls) @ f u # c)"
    by (rule take_append_take)
  finally show ?case by simp
qed

lemma fst_recordResult: "fst (recordResult st r) = fst st @ [r]"
  by (cases st) (simp add: recordResult_def Let_def)

lemma fst_foldl_recordResult:
  "fst (foldl (\<lambda>st url. recordResult st (f url)) st urls) = fst st @ map f urls"
  by (induction urls arbitrary: st) (simp_all add: fst_recordResult)

lemma fst_POST:
  "requestUrls body \<noteq> [] \<Longrightarrow>
     fst (POST env steps cache (Inr body)) = Ok200 (map (importUrl env steps) (requestUrls body))"
  using fst_foldl_recordResult[of "importUrl env steps" "([], cache)" "requestUrls body"]
  by (simp add: POST_def Let_def case_prod_beta)

lemma POST_cache:
  assumes "length cache \<le> 50"
  shows "snd (POST env steps cache req) = take 50 (rev (resultsOf (fst (POST env steps cache req))) @ cache)"
proof (cases req)
  case (Inl e)
  with assms show ?thesis by (simp add: POST_def)
next
  case (Inr body)
  show ?thesis
  proof (cases "requestUrls body = []")
    case True
    with Inr assms show ?thesis by (simp add: POST_def)
  next
    case False
    with Inr assms show ?thesis by (simp add: POST_def Let_def foldl_recordResult)
  qed
qed

lemma runBatches_cache:
  assumes "length cache \<le> 50"
  shows "snd (runBatches env steps cache reqs)
     = take 50 (rev (concat (map resultsOf (fst (runBatches env steps cache reqs)))) @ cache)"
  using assms
proof (induction reqs arbitrary: cache)
  case Nil
  then show ?case by simp
next
  case (Cons req reqs)
  obtain resp cache' where P: "POST env steps cache req = (resp, cache')"
    by (cases "POST env steps cache req")
  obtain resps cache'' where R: "runBatches env steps cache' reqs = (resps, cache'')"
    by (cases "runBatches env steps cache' reqs")
  from POST_cache[OF Cons.prems, of env steps req] P
  have c': "cache' = take 50 (rev (resultsOf resp) @ cache)" by simp
  then have "length cache' \<le> 50" by simp
  from Cons.IH[OF this] R
  have "cache'' = take 50 (rev (concat (map resultsOf resps)) @ cache')" by simp
  also have "\<dots> = take 50 (rev (concat (map resultsOf resps)) @ rev (resultsOf resp) @ cache)"
    unfolding c' by (rule take_append_take)
  finally show ?case using P R by simp
qed

lemma sourceUrl_importUrl: "sourceUrl (importUrl env steps url) = url"
  by (simp add: importUrl_def Let_def catchFailure_def initialResult_def
      split: option.splits sum.splits)

lemma fst_runBatches_Cons:
  "fst (runBatches env steps cache (req # reqs))
     = fst (POST env steps cache req) # fst (runBatches env steps (snd (POST env steps cache req)) reqs)"
  by (simp add: case_prod_beta)

lemma requestUrls_url60:
  "requestUrls (Some \<lparr>b_url = x, b_urls = Some (map url60 ns)\<rparr>) = map url60 ns"
  by (induction ns) (simp_all add: requestUrls_def url60_def)

lemma two_batches:
  assumes "ns1 \<noteq> []" and "ns2 \<noteq> []"
  shows "concat (map resultsOf (fst (runBatches env steps c
           [Inr (Some \<lparr>b_url = None, b_urls = Some (map url60 ns1)\<rparr>),
            Inr (Some \<lparr>b_url = None, b_urls = Some (map url60 ns2)\<rparr>)])))
     = map (importUrl env steps) (map url60 (ns1 @ ns2))"
  using assms
  by (simp add: fst_runBatches_Cons fst_POST requestUrls_url60 del: runBatches.simps(2))

lemma upt60: "[0..<60] = [0..<25] @ [25..<60]"
  using upt_add_eq_append[of 0 25 35] by simp

lemma imported60_eq: "imported60 = map (importUrl exampleEnv exampleSteps) (map url60 [0..<60])"
proof -
  have "[0..<25] \<noteq> []" "[25..<60] \<noteq> []" by simp_all
  then show ?thesis
    unfolding imported60_def batches60_def upt60 by (rule two_batches)
qed

lemma url60_map:
  "map url60 ns = map ((@) ''https://www.ebay.com/itm/2627422214'')
      (map (\<lambda>n. [''0123456789'' ! (n div 10), ''0123456789'' ! (n mod 10)]) ns)"
  by (simp add: url60_def)

lemma distinct_url60: "distinct (map url60 [0..<60])"
proof -
  have "distinct (map (\<lambda>n. [''0123456789'' ! (n div 10), ''0123456789'' ! (n mod 10)]) [0..<60])"
    by code_simp
  then have "distinct (map ((@) ''https://www.ebay.com/itm/2627422214'')
      (map (\<lambda>n. [''0123456789'' ! (n div 10), ''0123456789'' ! (n mod 10)]) [0..<60]))"
    by (simp only: distinct_map[of "(@) ''https://www.ebay.com/itm/2627422214''"]) (simp add: inj_on_def)
  then show ?thesis by (simp only: url60_map)
qed

text \<open>
  Claim C9. The history starts empty when the process starts. After any sequence of
  batch requests it holds at most 50 entries, and they are the last 50 results of all
  the imports so far, the newest first. So after the import of 60 URLs, all different,
  in one or more batches, the history has exactly 50 entries, its first entry is the
  result of the 60th import, and the results of the first 10 imports are no longer in it.
\<close>

theorem history_bounded:
  assumes "runBatches env steps [] reqs = (resps, cache)"
    and "imported = concat (map resultsOf resps)"
  shows "length cache \<le> 50
   \<and> cache = take 50 (rev imported)
   \<and> (length imported = 60 \<and> distinct (map sourceUrl imported) \<longrightarrow>
        length cache = 50
        \<and> cache ! 0 = imported ! 59
        \<and> cache = rev (drop 10 imported)
        \<and> (\<forall>i<10. sourceUrl (imported ! i) \<notin> sourceUrl ` set cache))"
proof -
  have c: "cache = take 50 (rev imported)"
    using runBatches_cache[of "[]" env steps reqs] assms by simp
  have "length imported = 60 \<Longrightarrow> take 50 (rev imported) = rev (drop 10 imported)"
    by (simp add: take_rev)
  moreover have "length imported = 60 \<Longrightarrow> rev (drop 10 imported) ! 0 = imported ! 59"
    by (simp add: rev_nth)
  moreover have "\<forall>i<10. sourceUrl (imported ! i) \<notin> sourceUrl ` set (drop 10 imported)"
    if "length imported = 60" and d: "distinct (map sourceUrl imported)"
  proof (intro allI impI)
    fix i :: nat
    assume i: "i < 10"
    have "imported = take 10 imported @ drop 10 imported" by simp
    then have "distinct (map sourceUrl (take 10 imported) @ map sourceUrl (drop 10 imported))"
      using d by (metis map_append)
    then have "set (map sourceUrl (take 10 imported)) \<inter> set (map sourceUrl (drop 10 imported)) = {}"
      by simp
    moreover have "sourceUrl (imported ! i) \<in> set (map sourceUrl (take 10 imported))"
      using i that(1) by (auto simp: in_set_conv_nth intro!: image_eqI[where x="imported ! i"] exI[of _ i])
    ultimately show "sourceUrl (imported ! i) \<notin> sourceUrl ` set (drop 10 imported)"
      by auto
  qed
  ultimately show ?thesis using c by simp
qed

text \<open>Sixty different URLs in two batches of 25 and 35.\<close>

theorem history_bounded_witness:
  "length imported60 = 60 \<and> distinct (map sourceUrl imported60)
   \<and> length cache60 = 50
   \<and> cache60 ! 0 = imported60 ! 59
   \<and> cache60 = rev (drop 10 imported60)
   \<and> sourceUrl (imported60 ! 0) \<notin> sourceUrl ` set cache60"
proof -
  have "map sourceUrl imported60 = map url60 [0..<60]"
    unfolding imported60_eq by (simp only: map_map comp_def sourceUrl_importUrl)
  then have d: "distinct (map sourceUrl imported60)"
    by (simp only: distinct_url60)
  have l: "length imported60 = 60"
    unfolding imported60_eq by simp
  have "runBatches exampleEnv exampleSteps [] batches60
      = (fst (runBatches exampleEnv exampleSteps [] batches60), cache60)"
    by (simp only: cache60_def prod.collapse)
  from history_bounded[OF this imported60_def] l d
  have "length cache60 = 50 \<and> cache60 ! 0 = imported60 ! 59 \<and> cache60 = rev (drop 10 imported60)
      \<and> (\<forall>i<10. sourceUrl (imported60 ! i) \<notin> sourceUrl ` set cache60)"
    by blast
  with l d show ?thesis by simp
qed


text \<open>
  Claim C8. A request whose URL list (the given strings, without the empty ones) is not
  empty is answered with status 200 and exactly one result per URL, in the order of the
  URLs; each is the result of that URL alone, whatever happened to the URLs before it.
  A failure while one URL is processed (no identifier in the URL, the resolution
  exhausted, or a throw in the steps after the resolution: reconciliation and the
  downstream calls) gives that URL a result with status \<open>failed\<close> whose \<open>error\<close> is
  the text of the failure; without a failure the status is \<open>created\<close>.
\<close>

theorem failures_caught:
  assumes "requestUrls body = urls" and "urls \<noteq> []"
  shows "fst (POST env steps cache (Inr body)) = Ok200 (map (importUrl env steps) urls)
   \<and> length (resultsOf (fst (POST env steps cache (Inr body)))) = length urls
   \<and> map sourceUrl (resultsOf (fst (POST env steps cache (Inr body)))) = urls
   \<and> (\<forall>url.
         (parseNumericTail (pathnameOf env) url = None \<longrightarrow>
            status (importUrl env steps url) = Failed
            \<and> error (importUrl env steps url) = Some ''Cannot parse numeric id from URL'')
         \<and> (\<forall>numeric e.
              parseNumericTail (pathnameOf env) url = Some numeric
              \<and> resolve env url numeric = Inl e \<longrightarrow>
                status (importUrl env steps url) = Failed
                \<and> error (importUrl env steps url) = Some e)
         \<and> (\<forall>numeric res e.
              parseNumericTail (pathnameOf env) url = Some numeric
              \<and> resolve env url numeric = Inr res
              \<and> so_failure (steps url (res_itemOrGroup res) (res_isGroup res)) = Some e \<longrightarrow>
                status (importUrl env steps url) = Failed
                \<and> error (importUrl env steps url) = Some e)
         \<and> (\<forall>numeric res.
              parseNumericTail (pathnameOf env) url = Some numeric
              \<and> resolve env url numeric = Inr res
              \<and> so_failure (steps url (res_itemOrGroup res) (res_isGroup res)) = None \<longrightarrow>
                status (importUrl env steps url) = Created))"
proof -
  have A: "fst (POST env steps cache (Inr body)) = Ok200 (map (importUrl env steps) urls)"
    using assms fst_POST[of body env steps cache] by simp
  have L: "length (resultsOf (fst (POST env steps cache (Inr body)))) = length urls"
    unfolding A by simp
  have M: "map sourceUrl (resultsOf (fst (POST env steps cache (Inr body)))) = urls"
    unfolding A by (simp add: comp_def sourceUrl_importUrl)
  have R: "\<forall>url.
         (parseNumericTail (pathnameOf env) url = None \<longrightarrow>
            status (importUrl env steps url) = Failed
            \<and> error (importUrl env steps url) = Some ''Cannot parse numeric id from URL'')
         \<and> (\<forall>numeric e.
              parseNumericTail (pathnameOf env) url = Some numeric
              \<and> resolve env url numeric = Inl e \<longrightarrow>
                status (importUrl env steps url) = Failed
                \<and> error (importUrl env steps url) = Some e)
         \<and> (\<forall>numeric res e.
              parseNumericTail (pathnameOf env) url = Some numeric
              \<and> resolve env url numeric = Inr res
              \<and> so_failure (steps url (res_itemOrGroup res) (res_isGroup res)) = Some e \<longrightarrow>
                status (importUrl env steps url) = Failed
                \<and> error (importUrl env steps url) = Some e)
         \<and> (\<forall>numeric res.
              parseNumericTail (pathnameOf env) url = Some numeric
              \<and> resolve env url numeric = Inr res
              \<and> so_failure (steps url (res_itemOrGroup res) (res_isGroup res)) = None \<longrightarrow>
                status (importUrl env steps url) = Created)"
    by (simp add: importUrl_def Let_def catchFailure_def)
  show ?thesis by (rule conjI[OF A conjI[OF L conjI[OF M R]]])
qed

text \<open>
  Four URLs: one that cannot be parsed, one whose resolution is exhausted, one for
  which the steps after the resolution throw, and one that is imported.
\<close>

theorem failures_caught_witness:
  "requestUrls exampleRequest = exampleUrls
   \<and> map status (resultsOf (fst (POST exampleEnv exampleSteps [] (Inr exampleRequest))))
       = [Failed, Failed, Failed, Created]
   \<and> parseNumericTail (pathnameOf exampleEnv) ''not a url'' = None
   \<and> error (importUrl exampleEnv exampleSteps ''not a url'')
       = Some ''Cannot parse numeric id from URL''
   \<and> isl (resolve exampleEnv ''https://www.ebay.com/itm/317074302407'' ''317074302407'')
   \<and> Inl (the (error (importUrl exampleEnv exampleSteps ''https://www.ebay.com/itm/317074302407'')))
       = resolve exampleEnv ''https://www.ebay.com/itm/317074302407'' ''317074302407''
   \<and> error (importUrl exampleEnv exampleSteps ''https://www.ebay.com/itm/356227859677'')
       = Some ''productCreate errors: []''
   \<and> status (importUrl exampleEnv exampleSteps ''https://www.ebay.com/itm/262742221410'') = Created"
proof -
  have u: "requestUrls exampleRequest = exampleUrls" "exampleUrls \<noteq> []"
    by code_simp+
  note F = failures_caught[OF u, of exampleEnv exampleSteps "[]"]
  note per_url = F[THEN conjunct2, THEN conjunct2, THEN conjunct2]
  have s: "map (\<lambda>url. status (importUrl exampleEnv exampleSteps url)) exampleUrls
      = [Failed, Failed, Failed, Created]"
    by code_simp
  from F have a: "fst (POST exampleEnv exampleSteps [] (Inr exampleRequest))
      = Ok200 (map (importUrl exampleEnv exampleSteps) exampleUrls)"
    by (rule conjunct1)
  have p1: "parseNumericTail (pathnameOf exampleEnv) ''not a url'' = None"
    by code_simp
  from per_url p1 have e1: "error (importUrl exampleEnv exampleSteps ''not a url'')
       = Some ''Cannot parse numeric id from URL''"
    by blast
  have p2: "parseNumericTail (pathnameOf exampleEnv) ''https://www.ebay.com/itm/317074302407''
      = Some ''317074302407''"
    by code_simp
  have i2: "isl (resolve exampleEnv ''https://www.ebay.com/itm/317074302407'' ''317074302407'')"
    by code_simp
  then obtain e where r2: "resolve exampleEnv ''https://www.ebay.com/itm/317074302407'' ''317074302407'' = Inl e"
    by (auto simp: isl_def)
  from per_url p2 r2 have e2: "error (importUrl exampleEnv exampleSteps ''https://www.ebay.com/itm/317074302407'') = Some e"
    by blast
  have p3: "parseNumericTail (pathnameOf exampleEnv) ''https://www.ebay.com/itm/356227859677''
      = Some ''356227859677''"
    by code_simp
  have i3: "\<not> isl (resolve exampleEnv ''https://www.ebay.com/itm/356227859677'' ''356227859677'')"
    "res_isGroup (projr (resolve exampleEnv ''https://www.ebay.com/itm/356227859677'' ''356227859677''))"
    by code_simp+
  then obtain res3 where r3: "resolve exampleEnv ''https://www.ebay.com/itm/356227859677'' ''356227859677'' = Inr res3"
    and g3: "res_isGroup res3"
    by (cases "resolve exampleEnv ''https://www.ebay.com/itm/356227859677'' ''356227859677''") auto
  have f3: "so_failure (exampleSteps ''https://www.ebay.com/itm/356227859677''
      (res_itemOrGroup res3) (res_isGroup res3)) = Some ''productCreate errors: []''"
    using g3 by (simp add: exampleSteps_def)
  from per_url p3 r3 f3 have e3: "error (importUrl exampleEnv exampleSteps ''https://www.ebay.com/itm/356227859677'')
       = Some ''productCreate errors: []''"
    by blast
  have p4: "parseNumericTail (pathnameOf exampleEnv) ''https://www.ebay.com/itm/262742221410''
      = Some ''262742221410''"
    by code_simp
  have i4: "\<not> isl (resolve exampleEnv ''https://www.ebay.com/itm/262742221410'' ''262742221410'')"
    "\<not> res_isGroup (projr (resolve exampleEnv ''https://www.ebay.com/itm/262742221410'' ''262742221410''))"
    by code_simp+
  then obtain res4 where r4: "resolve exampleEnv ''https://www.ebay.com/itm/262742221410'' ''262742221410'' = Inr res4"
    and g4: "\<not> res_isGroup res4"
    by (cases "resolve exampleEnv ''https://www.ebay.com/itm/262742221410'' ''262742221410''") auto
  have f4: "so_failure (exampleSteps ''https://www.ebay.com/itm/262742221410''
      (res_itemOrGroup res4) (res_isGroup res4)) = None"
    using g4 by (simp add: exampleSteps_def)
  from per_url p4 r4 f4 have e4: "status (importUrl exampleEnv exampleSteps ''https://www.ebay.com/itm/262742221410'') = Created"
    by blast
  from a u s p1 e1 i2 r2 e2 e3 e4 show ?thesis by (simp add: comp_def)
qed

section \<open>Identifiers in URLs\<close>

lemma trailingDigits_all: "list_all isDigit s \<Longrightarrow> trailingDigits s = s"
proof -
  assume "list_all isDigit s"
  then have "\<forall>x\<in>set (rev s). isDigit x" by (simp add: list_all_iff)
  then have T: "takeWhile isDigit (rev s) = rev s" by (simp only: takeWhile_eq_all_conv)
  show ?thesis unfolding trailingDigits_def T by (rule rev_rev_ident)
qed

lemma trailingDigits_Cons:
  "trailingDigits (c # rest) = (if list_all isDigit (c # rest) then c # rest else trailingDigits rest)"
proof (cases "list_all isDigit (c # rest)")
  case True
  then show ?thesis by (simp only: trailingDigits_all if_True)
next
  case False
  show ?thesis
  proof (cases "list_all isDigit rest")
    case True
    have "takeWhile isDigit (rev rest @ [c]) = rev rest @ takeWhile isDigit [c]"
      by (rule takeWhile_append2) (use True in \<open>simp add: list_all_iff\<close>)
    moreover have "\<not> isDigit c" using False True by simp
    moreover have "trailingDigits rest = rest" using True by (rule trailingDigits_all)
    ultimately show ?thesis using False by (simp add: trailingDigits_def)
  next
    case nd: False
    then obtain x where "x \<in> set (rev rest)" "\<not> isDigit x" by (auto simp: list_all_iff)
    then have "takeWhile isDigit (rev rest @ [c]) = takeWhile isDigit (rev rest)"
      by (rule takeWhile_append1)
    with nd show ?thesis by (simp add: trailingDigits_def)
  qed
qed

lemma matchDigitTail_eq:
  "matchDigitTail s = (if length (trailingDigits s) \<ge> 9 then Some (trailingDigits s) else None)"
proof (induction s)
  case Nil
  then show ?case by (simp add: trailingDigits_def)
next
  case (Cons c rest)
  show ?case
  proof (cases "list_all isDigit (c # rest)")
    case True
    then have r: "list_all isDigit rest" by simp
    have "trailingDigits (c # rest) = c # rest" using True by (rule trailingDigits_all)
    moreover have "trailingDigits rest = rest" using r by (rule trailingDigits_all)
    ultimately show ?thesis using True Cons by auto
  next
    case False
    then have "trailingDigits (c # rest) = trailingDigits rest"
      by (simp only: trailingDigits_Cons if_False)
    moreover have "matchDigitTail (c # rest) = matchDigitTail rest"
      using False by auto
    ultimately show ?thesis using Cons by simp
  qed
qed

lemma trailingDigits_segment:
  assumes "list_all isDigit (trailingSegment p)"
  shows "trailingDigits p = trailingSegment p"
proof -
  let ?P = "\<lambda>c. c \<noteq> CHR ''/''"
  let ?t = "takeWhile ?P (rev p)"
  let ?d = "dropWhile ?P (rev p)"
  have d: "\<And>x. x \<in> set ?t \<Longrightarrow> isDigit x"
    using assms by (simp add: trailingSegment_def list_all_iff)
  have "takeWhile isDigit ?d = []"
  proof (cases ?d)
    case Nil
    then show ?thesis by (simp only: takeWhile.simps)
  next
    case (Cons x xs)
    then have "?d \<noteq> []" by simp
    then have "\<not> ?P (hd ?d)" by (rule hd_dropWhile)
    with Cons have "x = CHR ''/''" by simp
    then have "\<not> isDigit x" by (simp add: isDigit_def)
    then show ?thesis by (simp only: Cons takeWhile.simps if_False)
  qed
  moreover have "takeWhile isDigit (?t @ ?d) = ?t @ takeWhile isDigit ?d"
    using d by (rule takeWhile_append2)
  ultimately have "takeWhile isDigit (?t @ ?d) = ?t" by simp
  then have "takeWhile isDigit (rev p) = ?t"
    by (simp only: takeWhile_dropWhile_id)
  then show ?thesis by (simp only: trailingDigits_def trailingSegment_def)
qed

lemma matchDigitsAfter_here:
  assumes "lit \<noteq> []" and "n \<le> length (takeWhile isDigit b)"
  shows "matchDigitsAfter lit n (lit @ b) = Some (takeWhile isDigit b)"
proof -
  from assms(1) obtain c rest where eq: "lit @ b = c # rest" by (cases lit) auto
  have "matchDigitsAfter lit n (c # rest) =
     (if take (length lit) (c # rest) = lit
         \<and> length (takeWhile isDigit (drop (length lit) (c # rest))) \<ge> n
      then Some (takeWhile isDigit (drop (length lit) (c # rest)))
      else matchDigitsAfter lit n rest)"
    by (rule matchDigitsAfter.simps(2))
  then show ?thesis
    unfolding eq[symmetric] using assms(2) by simp
qed

lemma matchDigitsAfter_found:
  assumes "lit \<noteq> []" and "n \<le> length (takeWhile isDigit b)"
  shows "matchDigitsAfter lit n (a @ lit @ b) \<noteq> None"
proof (induction a)
  case Nil
  then show ?case using matchDigitsAfter_here[OF assms] by simp
next
  case (Cons x a)
  then show ?case by simp
qed

lemma matchDigitsAfter_Some:
  "matchDigitsAfter lit n s = Some d \<Longrightarrow>
     \<exists>a b. s = a @ lit @ b \<and> d = takeWhile isDigit b \<and> n \<le> length d"
proof (induction s)
  case Nil
  then show ?case by simp
next
  case (Cons c rest)
  show ?case
  proof (cases "take (length lit) (c # rest) = lit
         \<and> length (takeWhile isDigit (drop (length lit) (c # rest))) \<ge> n")
    case True
    with Cons.prems have d: "d = takeWhile isDigit (drop (length lit) (c # rest))" by simp
    have "take (length lit) (c # rest) @ drop (length lit) (c # rest) = c # rest"
      by (rule append_take_drop_id)
    with True have "c # rest = [] @ lit @ drop (length lit) (c # rest)" by simp
    moreover have "n \<le> length d" using True d by simp
    ultimately show ?thesis using d by blast
  next
    case False
    with Cons.prems have "matchDigitsAfter lit n rest = Some d" by auto
    from Cons.IH[OF this] obtain a b where ab: "rest = a @ lit @ b" "d = takeWhile isDigit b" "n \<le> length d"
      by blast
    then have "c # rest = (c # a) @ lit @ b" by simp
    with ab(2,3) show ?thesis by blast
  qed
qed

lemma matchDigitsAfter_None_iff:
  assumes "lit \<noteq> []"
  shows "matchDigitsAfter lit n s = None
     \<longleftrightarrow> \<not> (\<exists>a b. s = a @ lit @ b \<and> n \<le> length (takeWhile isDigit b))"
proof
  assume N: "matchDigitsAfter lit n s = None"
  show "\<not> (\<exists>a b. s = a @ lit @ b \<and> n \<le> length (takeWhile isDigit b))"
  proof
    assume "\<exists>a b. s = a @ lit @ b \<and> n \<le> length (takeWhile isDigit b)"
    then obtain a b where "s = a @ lit @ b" "n \<le> length (takeWhile isDigit b)" by blast
    with matchDigitsAfter_found[OF assms, of n b a] N show False by simp
  qed
next
  assume E: "\<not> (\<exists>a b. s = a @ lit @ b \<and> n \<le> length (takeWhile isDigit b))"
  show "matchDigitsAfter lit n s = None"
  proof (cases "matchDigitsAfter lit n s")
    case None
    then show ?thesis .
  next
    case (Some d)
    from matchDigitsAfter_Some[OF this] E show ?thesis by blast
  qed
qed


lemma parseNumericTail_Some_path:
  "pathOf url = Some p \<Longrightarrow>
     parseNumericTail pathOf url =
       (if 9 \<le> length (trailingDigits p) then Some (trailingDigits p)
        else matchDigitsAfter ''/itm/'' 9 p)"
  by (auto simp: parseNumericTail_def Let_def matchDigitTail_eq split: option.splits)

text \<open>
  Claim C7, as the code has it. When the path of the URL ends in a segment of at least 9
  digits, \<open>parseNumericTail\<close> returns exactly that segment. It returns none exactly
  when the URL is malformed, or when its path neither ends in a run of at least 9 digits
  nor contains \<open>/itm/\<close> followed by at least 9 digits.
\<close>

theorem parseNumericTail_spec:
  "(\<forall>p. pathOf url = Some p \<and> hasNumericTailSegment p \<longrightarrow>
        parseNumericTail pathOf url = Some (trailingSegment p))
   \<and> (parseNumericTail pathOf url = None \<longleftrightarrow>
        pathOf url = None
        \<or> (\<exists>p. pathOf url = Some p
              \<and> length (trailingDigits p) < 9
              \<and> \<not> (\<exists>a b. p = a @ ''/itm/'' @ b \<and> 9 \<le> length (takeWhile isDigit b))))"
proof (intro conjI allI impI)
  fix p
  assume a: "pathOf url = Some p \<and> hasNumericTailSegment p"
  then have "trailingDigits p = trailingSegment p"
    by (simp add: hasNumericTailSegment_def trailingDigits_segment)
  with a show "parseNumericTail pathOf url = Some (trailingSegment p)"
    by (simp add: parseNumericTail_Some_path hasNumericTailSegment_def)
next
  show "parseNumericTail pathOf url = None \<longleftrightarrow>
        pathOf url = None
        \<or> (\<exists>p. pathOf url = Some p
              \<and> length (trailingDigits p) < 9
              \<and> \<not> (\<exists>a b. p = a @ ''/itm/'' @ b \<and> 9 \<le> length (takeWhile isDigit b)))"
  proof (cases "pathOf url")
    case None
    then show ?thesis by (simp add: parseNumericTail_def)
  next
    case (Some p)
    have "matchDigitsAfter ''/itm/'' 9 p = None
       \<longleftrightarrow> \<not> (\<exists>a b. p = a @ ''/itm/'' @ b \<and> 9 \<le> length (takeWhile isDigit b))"
      by (rule matchDigitsAfter_None_iff) simp
    with Some show ?thesis
      by (simp add: parseNumericTail_Some_path del: append.simps)
  qed
qed

text \<open>A listing URL with a title segment, a numeric last segment and a query.\<close>

theorem parseNumericTail_spec_witness:
  "simplePathname ''https://www.ebay.com/itm/Dried-Leaf-Herb-/317074302407?hash=item49''
     = Some ''/itm/Dried-Leaf-Herb-/317074302407''
   \<and> hasNumericTailSegment ''/itm/Dried-Leaf-Herb-/317074302407''
   \<and> parseNumericTail simplePathname
        ''https://www.ebay.com/itm/Dried-Leaf-Herb-/317074302407?hash=item49''
     = Some ''317074302407''"
proof -
  have p: "simplePathname ''https://www.ebay.com/itm/Dried-Leaf-Herb-/317074302407?hash=item49''
     = Some ''/itm/Dried-Leaf-Herb-/317074302407''"
    by code_simp
  have h: "hasNumericTailSegment ''/itm/Dried-Leaf-Herb-/317074302407''"
    by code_simp
  have t: "trailingSegment ''/itm/Dried-Leaf-Herb-/317074302407'' = ''317074302407''"
    by code_simp
  from parseNumericTail_spec[of simplePathname
      "''https://www.ebay.com/itm/Dried-Leaf-Herb-/317074302407?hash=item49''",
      THEN conjunct1, rule_format, OF conjI[OF p h]] p h t
  show ?thesis by simp
qed

text \<open>
  Claim C7 says that a URL without a trailing segment of at least 9 digits gives none.
  Two URLs without such a segment for which an identifier is returned: the fallback
  finds the digits after \<open>/itm/\<close> in front of a further segment, and the first pattern
  takes the digits that end a segment which does not start with a digit.
\<close>

theorem parseNumericTail_fallback_counterexample:
  "simplePathname ''https://www.ebay.com/itm/123456789012/anything''
     = Some ''/itm/123456789012/anything''
   \<and> \<not> hasNumericTailSegment ''/itm/123456789012/anything''
   \<and> parseNumericTail simplePathname ''https://www.ebay.com/itm/123456789012/anything''
     = Some ''123456789012''
   \<and> simplePathname ''https://www.ebay.com/itm/abc123456789'' = Some ''/itm/abc123456789''
   \<and> \<not> hasNumericTailSegment ''/itm/abc123456789''
   \<and> parseNumericTail simplePathname ''https://www.ebay.com/itm/abc123456789''
     = Some ''123456789''"
  by code_simp

section \<open>Resolving a listing\<close>

text \<open>
  Claim C6 says that the normalization of a group response takes \<open>items\<close> from
  whichever of the three fields is populated, and fills a missing title and description
  from the first item of that list. \<open>normalizeGroupResponse\<close> tests only that a field
  is an array. On a response whose \<open>items\<close> is the empty array and whose
  \<open>itemSummaries\<close> holds a member, it keeps the empty array and, finding no first
  item, leaves title and description absent; \<open>collectEbayItems\<close> on the same response
  passes over the empty array and returns the member.
\<close>

theorem normalizeGroupResponse_empty_items:
  "normalizeGroupResponse (Some emptyItemsGroup) = Some emptyItemsGroup
   \<and> g_items emptyItemsGroup = Some []
   \<and> g_title emptyItemsGroup = None
   \<and> g_description emptyItemsGroup = None
   \<and> collectEbayItems (Some emptyItemsGroup) = [shirtItem]
   \<and> i_title shirtItem = Some ''Shirt red''"
  by (simp add: normalizeGroupResponse_def emptyItemsGroup_def collectEbayItems_def orElse_def
      shirtItem_def)


text \<open>When no empty array stands before the populated field, the normalization does
  take the items that \<open>collectEbayItems\<close> finds, and fills title and description from
  the first of them.\<close>

lemma normalizeGroupResponse_populated:
  assumes "g_items d \<noteq> Some []"
    and "g_items d = None \<longrightarrow> g_itemSummaries d \<noteq> Some []"
  shows "normalizeGroupResponse (Some d) =
     Some (d\<lparr>g_items := Some (collectEbayItems (Some d)),
             g_title := orElse (g_title d)
               (case collectEbayItems (Some d) of [] \<Rightarrow> None | x # _ \<Rightarrow> i_title x),
             g_description := orElse (g_description d)
               (case collectEbayItems (Some d) of [] \<Rightarrow> None | x # _ \<Rightarrow> i_description x)\<rparr>)"
  using assms
  by (auto simp: normalizeGroupResponse_def collectEbayItems_def Let_def
      split: option.splits list.splits)

lemma normalizeGroupResponse_Some: "normalizeGroupResponse (Some d) \<noteq> None"
  by (simp add: normalizeGroupResponse_def Let_def)

lemma parseNumericTail_digits:
  assumes "parseNumericTail pathOf url = Some n"
  shows "9 \<le> length n"
proof (cases "pathOf url")
  case None
  with assms show ?thesis by (simp add: parseNumericTail_def)
next
  case (Some p)
  show ?thesis
  proof (cases "9 \<le> length (trailingDigits p)")
    case True
    with Some assms show ?thesis by (simp add: parseNumericTail_Some_path)
  next
    case False
    with Some assms have "matchDigitsAfter ''/itm/'' 9 p = Some n"
      by (simp add: parseNumericTail_Some_path)
    from matchDigitsAfter_Some[OF this] show ?thesis by blast
  qed
qed

lemma parseGroupIdFromErrorText_truthy:
  "parseGroupIdFromErrorText msg = Some h \<Longrightarrow> h \<noteq> []"
  by (auto simp: parseGroupIdFromErrorText_def orElse_def split: if_splits)

text \<open>
  Claim C5. Let the legacy lookup on the numeric tail of the URL fail with a text that
  names a group, let both group endpoints fail for that hinted group, and let the group
  lookup on the numeric tail succeed with a payload (on the first endpoint, or on the
  second after the first failed). Then the resolution succeeds with \<open>isGroup = true\<close>
  and the normalized payload, and the notes are, in this order: the failure of the legacy
  lookup, the failures of the two endpoints for the hinted group, and the entries of the
  lookup on the numeric tail, which end with its success.
\<close>

theorem recovery_by_numeric_group:
  assumes parse: "parseNumericTail (pathnameOf env) url = Some numeric"
    and legacy: "ebayGetItemByLegacyId env numeric = Inl msg"
    and hint: "parseGroupIdFromErrorText msg = Some hinted"
    and h1: "ebayGetItemGroup env hinted = Inl e1"
    and h2: "ebayGetItemsByItemGroup env hinted = Inl e2"
    and ok: "ebayGetItemGroup env numeric = Inr (Some d)
             \<or> (ebayGetItemGroup env numeric = Inl e3
                 \<and> ebayGetItemsByItemGroup env numeric = Inr (Some d))"
  shows "resolve env url numeric =
     Inr \<lparr>res_itemOrGroup = normalizeGroupResponse (Some d), res_isGroup = True,
          res_notes =
            [attemptNote ''legacy'' numeric msg,
             attemptNote ''item_group'' hinted e1,
             attemptNote ''get_items_by_item_group'' hinted e2]
            @ (if ebayGetItemGroup env numeric = Inr (Some d)
               then [attemptNote ''item_group'' numeric ''success'']
               else [attemptNote ''item_group'' numeric e3,
                     attemptNote ''get_items_by_item_group'' numeric ''success''])\<rparr>"
proof -
  have n: "numeric \<noteq> []" using parseNumericTail_digits[OF parse] by auto
  have h: "hinted \<noteq> []" using hint by (rule parseGroupIdFromErrorText_truthy)
  have ne: "hinted \<noteq> numeric" using h1 h2 ok by auto
  let ?st0 = "\<lparr>itemOrGroup = None, isGroup = False,
                attemptNotes = [attemptNote ''legacy'' numeric msg],
                attemptedGroupIds = {}, attemptedLegacyIds = {numeric}, attemptedItemIds = {},
                scrapedIds = None\<rparr> :: 'a ResolverState"
  let ?st1 = "?st0\<lparr>attemptedGroupIds := {hinted},
                attemptNotes := [attemptNote ''legacy'' numeric msg,
                  attemptNote ''item_group'' hinted e1,
                  attemptNote ''get_items_by_item_group'' hinted e2]\<rparr>"
  have s1: "tryGroupId env (Some hinted) ?st0 = ?st1"
    using h h1 h2 by (simp add: tryGroupId_def groupAttempt_def pushNote_def)
  let ?notes = "[attemptNote ''legacy'' numeric msg,
             attemptNote ''item_group'' hinted e1,
             attemptNote ''get_items_by_item_group'' hinted e2]
            @ (if ebayGetItemGroup env numeric = Inr (Some d)
               then [attemptNote ''item_group'' numeric ''success'']
               else [attemptNote ''item_group'' numeric e3,
                     attemptNote ''get_items_by_item_group'' numeric ''success''])"
  let ?st2 = "?st1\<lparr>attemptedGroupIds := {numeric, hinted},
                itemOrGroup := normalizeGroupResponse (Some d), isGroup := True,
                attemptNotes := ?notes\<rparr>"
  have s2: "tryGroupId env (Some numeric) ?st1 = ?st2"
    using n ne ok
    by (auto simp: tryGroupId_def groupAttempt_def pushNote_def normalizeGroupResponse_Some)
  have r: "recover env url numeric msg = ?st2"
    unfolding recover_def Let_def hint s1 s2
    by (simp add: scrapeStage_def itemStage_def normalizeGroupResponse_Some)
  show ?thesis
    unfolding resolve_def legacy
    by (simp add: r normalizeGroupResponse_Some Let_def)
qed

text \<open>The second listing of the example collaborators.\<close>

theorem recovery_by_numeric_group_witness:
  "parseNumericTail (pathnameOf exampleEnv) ''https://www.ebay.com/itm/356227859677''
     = Some ''356227859677''
   \<and> parseGroupIdFromErrorText ''EBAY_LEGACY_FAIL 400 use item_group_id=777777 instead''
     = Some ''777777''
   \<and> resolve exampleEnv ''https://www.ebay.com/itm/356227859677'' ''356227859677'' =
     Inr \<lparr>res_itemOrGroup = normalizeGroupResponse (Some exampleGroup), res_isGroup = True,
          res_notes =
            [''legacy(356227859677): EBAY_LEGACY_FAIL 400 use item_group_id=777777 instead'',
             ''item_group(777777): eBay item_group failed: 404'',
             ''get_items_by_item_group(777777): eBay get_items_by_item_group failed: 404'',
             ''item_group(356227859677): success'']\<rparr>"
proof -
  have p: "parseNumericTail (pathnameOf exampleEnv) ''https://www.ebay.com/itm/356227859677''
     = Some ''356227859677''"
    by code_simp
  have l: "ebayGetItemByLegacyId exampleEnv ''356227859677''
     = Inl ''EBAY_LEGACY_FAIL 400 use item_group_id=777777 instead''"
    by code_simp
  have g: "parseGroupIdFromErrorText ''EBAY_LEGACY_FAIL 400 use item_group_id=777777 instead''
     = Some ''777777''"
    by code_simp
  have h1: "ebayGetItemGroup exampleEnv ''777777'' = Inl ''eBay item_group failed: 404''"
    by code_simp
  have h2: "ebayGetItemsByItemGroup exampleEnv ''777777''
     = Inl ''eBay get_items_by_item_group failed: 404''"
    by code_simp
  have ok: "ebayGetItemGroup exampleEnv ''356227859677'' = Inr (Some exampleGroup)"
    by (simp add: exampleEnv_def)
  note r = recovery_by_numeric_group[OF p l g h1 h2 disjI1[OF ok]]
  have nt: "attemptNote ''legacy'' ''356227859677''
        ''EBAY_LEGACY_FAIL 400 use item_group_id=777777 instead''
      = ''legacy(356227859677): EBAY_LEGACY_FAIL 400 use item_group_id=777777 instead''"
    "attemptNote ''item_group'' ''777777'' ''eBay item_group failed: 404''
      = ''item_group(777777): eBay item_group failed: 404''"
    "attemptNote ''get_items_by_item_group'' ''777777'' ''eBay get_items_by_item_group failed: 404''
      = ''get_items_by_item_group(777777): eBay get_items_by_item_group failed: 404''"
    "attemptNote ''item_group'' ''356227859677'' ''success'' = ''item_group(356227859677): success''"
    by (simp_all add: attemptNote_def)
  from r p g ok show ?thesis by (simp only: nt if_True append.simps simp_thms)
qed

section \<open>Option axes of an item group\<close>

lemma observationsOf_snoc:
  "observationsOf k (obs @ [(n, v)]) =
     observationsOf k obs @ (if toLowerCase n = k then [(n, v)] else [])"
  by (simp add: observationsOf_def)

lemma set_aspectKeys: "set (aspectKeys obs) = (\<lambda>nv. toLowerCase (fst nv)) ` set obs"
  using set_firstOccurrences[of "\<lambda>k. k" "map (\<lambda>nv. toLowerCase (fst nv)) obs"]
  by (simp add: aspectKeys_def)

lemma aspectKeys_snoc:
  "aspectKeys (obs @ [(n, v)]) =
     aspectKeys obs @ (if toLowerCase n \<in> set (aspectKeys obs) then [] else [toLowerCase n])"
proof -
  have "set (firstOccurrences (\<lambda>k. k) (map (\<lambda>nv. toLowerCase (fst nv)) obs))
      = (\<lambda>nv. toLowerCase (fst nv)) ` set obs"
    using set_aspectKeys[of obs] by (simp only: aspectKeys_def)
  then show ?thesis
    using firstOccurrences_snoc[of "\<lambda>k. k" "map (\<lambda>nv. toLowerCase (fst nv)) obs" "toLowerCase n"]
    by (simp add: aspectKeys_def)
qed

lemma observationsOf_empty_iff:
  "observationsOf k obs = [] \<longleftrightarrow> k \<notin> set (aspectKeys obs)"
  by (auto simp: observationsOf_def set_aspectKeys filter_empty_conv)

lemma map_fst_aggregated: "map fst (aggregated obs) = aspectKeys obs"
  by (simp add: aggregated_def aggregatedEntry_def comp_def)

lemma aggregatedEntry_other:
  "snd ik \<noteq> toLowerCase n \<Longrightarrow> aggregatedEntry (obs @ [(n, v)]) ik = aggregatedEntry obs ik"
  by (simp add: aggregatedEntry_def observationsOf_snoc)

lemma aggregatedEntry_same:
  assumes "snd ik = toLowerCase n" and "toLowerCase n \<in> set (aspectKeys obs)"
  shows "aggregatedEntry (obs @ [(n, v)]) ik =
     (snd ik, (snd (aggregatedEntry obs ik))
        \<lparr>am_values := setAdd (am_values (snd (aggregatedEntry obs ik))) v\<rparr>)"
proof -
  have ne: "observationsOf (toLowerCase n) obs \<noteq> []"
    using assms(2) by (simp add: observationsOf_empty_iff)
  have "firstOccurrences (\<lambda>v. v) (map snd (observationsOf (toLowerCase n) obs) @ [v])
      = setAdd (firstOccurrences (\<lambda>v. v) (map snd (observationsOf (toLowerCase n) obs))) v"
    using arrayFromSet_snoc[of "map snd (observationsOf (toLowerCase n) obs)" v]
    by (simp only: arrayFromSet_firstOccurrences)
  with ne assms(1) show ?thesis
    by (simp add: aggregatedEntry_def observationsOf_snoc)
qed

lemma updateEntry_map:
  "updateEntry key f (map g xs) =
     map (\<lambda>x. if fst (g x) = key then (fst (g x), f (snd (g x))) else g x) xs"
  by (simp add: updateEntry_def case_prod_beta comp_def)

lemma updateEntry_aggregated:
  "updateEntry (toLowerCase n) (\<lambda>m. m\<lparr>am_values := setAdd (am_values m) v\<rparr>)
       (map (aggregatedEntry obs) (enumerate 0 (aspectKeys obs)))
     = map (aggregatedEntry (obs @ [(n, v)])) (enumerate 0 (aspectKeys obs))"
  unfolding updateEntry_map
proof (rule map_cong[OF refl])
  fix ik
  assume "ik \<in> set (enumerate 0 (aspectKeys obs))"
  then have "fst ik < length (aspectKeys obs)" "aspectKeys obs ! fst ik = snd ik"
    by (simp_all add: in_set_enumerate_eq)
  then have k: "snd ik \<in> set (aspectKeys obs)"
    using nth_mem[of "fst ik" "aspectKeys obs"] by simp
  have f: "fst (aggregatedEntry obs ik) = snd ik" by (simp add: aggregatedEntry_def)
  show "(if fst (aggregatedEntry obs ik) = toLowerCase n
         then (fst (aggregatedEntry obs ik),
               (snd (aggregatedEntry obs ik))
                 \<lparr>am_values := setAdd (am_values (snd (aggregatedEntry obs ik))) v\<rparr>)
         else aggregatedEntry obs ik) = aggregatedEntry (obs @ [(n, v)]) ik"
  proof (cases "snd ik = toLowerCase n")
    case True
    with k have "toLowerCase n \<in> set (aspectKeys obs)" by simp
    from aggregatedEntry_same[OF True this] True f show ?thesis by simp
  next
    case False
    with aggregatedEntry_other[of ik n obs v] f show ?thesis by simp
  qed
qed

lemma recordAspect_aggregated:
  "recordAspect (aggregated obs, length (aspectKeys obs)) n v =
     (aggregated (obs @ [(n, v)]), length (aspectKeys (obs @ [(n, v)])))"
proof (cases "toLowerCase n \<in> set (aspectKeys obs)")
  case True
  then have "toLowerCase n \<in> fst ` set (aggregated obs)"
    using map_fst_aggregated[of obs] by (metis set_map)
  then have "recordAspect (aggregated obs, length (aspectKeys obs)) n v =
      (updateEntry (toLowerCase n) (\<lambda>m. m\<lparr>am_values := setAdd (am_values m) v\<rparr>) (aggregated obs),
       length (aspectKeys obs))"
    by (simp add: recordAspect_def Let_def)
  also have "\<dots> = (map (aggregatedEntry (obs @ [(n, v)])) (enumerate 0 (aspectKeys obs)),
       length (aspectKeys obs))"
    by (simp only: aggregated_def updateEntry_aggregated)
  finally show ?thesis using True by (simp add: aggregated_def aspectKeys_snoc)
next
  case False
  then have nk: "toLowerCase n \<notin> fst ` set (aggregated obs)"
    using map_fst_aggregated[of obs] by (metis set_map)
  let ?new = "(toLowerCase n, \<lparr>am_originalName = n, am_values = [], am_order = length (aspectKeys obs)\<rparr>)"
  let ?f = "\<lambda>m. m\<lparr>am_values := setAdd (am_values m) v\<rparr>"
  have "recordAspect (aggregated obs, length (aspectKeys obs)) n v =
      (updateEntry (toLowerCase n) ?f (aggregated obs @ [?new]), length (aspectKeys obs) + 1)"
    using nk by (simp add: recordAspect_def Let_def)
  also have "updateEntry (toLowerCase n) ?f (aggregated obs @ [?new])
      = updateEntry (toLowerCase n) ?f (aggregated obs)
        @ [(toLowerCase n, \<lparr>am_originalName = n, am_values = [v], am_order = length (aspectKeys obs)\<rparr>)]"
    by (simp add: updateEntry_def setAdd_def)
  also have "updateEntry (toLowerCase n) ?f (aggregated obs)
      = map (aggregatedEntry (obs @ [(n, v)])) (enumerate 0 (aspectKeys obs))"
    by (simp only: aggregated_def updateEntry_aggregated)
  also have "(toLowerCase n, \<lparr>am_originalName = n, am_values = [v], am_order = length (aspectKeys obs)\<rparr>)
      = aggregatedEntry (obs @ [(n, v)]) (length (aspectKeys obs), toLowerCase n)"
    using False
    by (simp add: aggregatedEntry_def observationsOf_snoc observationsOf_empty_iff[THEN iffD2]
        firstOccurrences_def)
  finally show ?thesis
    using False by (simp add: aggregated_def aspectKeys_snoc enumerate_append_eq)
qed

lemma foldl_recordAspect:
  "foldl (\<lambda>st nv. recordAspect st (fst nv) (snd nv)) ([], 0) obs
     = (aggregated obs, length (aspectKeys obs))"
proof (induction obs rule: rev_induct)
  case Nil
  then show ?case by (simp add: aggregated_def aspectKeys_def firstOccurrences_def)
next
  case (snoc nv obs)
  obtain n v where nv: "nv = (n, v)" by (cases nv)
  show ?case
    unfolding nv foldl_append snoc.IH[unfolded nv]
    by (simp add: recordAspect_aggregated)
qed

lemma addAspect_entry:
  "addAspect st (a_name a) (a_value a)
     = foldl (\<lambda>st nv. recordAspect st (fst nv) (snd nv)) st (aspectEntry a)"
  by (cases "a_name a"; cases "normAspectValue (a_value a)")
     (simp_all add: addAspect_def aspectEntry_def Let_def)

lemma foldl_concat_map:
  "foldl (\<lambda>st x. foldl f st (g x)) st xs = foldl f st (concat (map g xs))"
  by (induction xs arbitrary: st) simp_all

lemma aspectTable_aggregated: "aspectTable items = aggregated (observedAspects items)"
proof -
  let ?r = "\<lambda>st nv. recordAspect st (fst nv) (snd nv)"
  have "foldl addItemAspects ([], 0) items
      = foldl (\<lambda>st item. foldl (\<lambda>st a. foldl ?r st (aspectEntry a)) st (itemAspects item)) ([], 0) items"
    by (simp add: addItemAspects_def[abs_def] addAspect_entry)
  also have "\<dots> = foldl (\<lambda>st a. foldl ?r st (aspectEntry a)) ([], 0) (concat (map itemAspects items))"
    by (rule foldl_concat_map)
  also have "\<dots> = foldl ?r ([], 0) (concat (map aspectEntry (concat (map itemAspects items))))"
    by (rule foldl_concat_map)
  finally show ?thesis
    by (simp add: aspectTable_def observedAspects_def foldl_recordAspect)
qed

lemma set_insertBy: "set (insertBy cmp x xs) = insert x (set xs)"
  by (induction xs) auto

lemma set_sortBy: "set (sortBy cmp xs) = set xs"
  by (induction xs) (simp_all add: sortBy_def set_insertBy)

lemma distinct_map_insertBy:
  "distinct (map f (insertBy cmp x xs)) \<longleftrightarrow> f x \<notin> f ` set xs \<and> distinct (map f xs)"
  by (induction xs) (auto simp: set_insertBy)

lemma distinct_map_sortBy: "distinct (map f (sortBy cmp xs)) \<longleftrightarrow> distinct (map f xs)"
  by (induction xs) (simp_all add: sortBy_def distinct_map_insertBy set_sortBy[unfolded sortBy_def])

lemma sorted_insertBy:
  assumes total: "\<And>a b. cmp a b \<le> 0 \<or> cmp b a \<le> 0"
    and trans: "\<And>a b c. cmp a b \<le> 0 \<Longrightarrow> cmp b c \<le> 0 \<Longrightarrow> cmp a c \<le> 0"
  shows "sorted_wrt (\<lambda>a b. cmp a b \<le> 0) xs \<Longrightarrow> sorted_wrt (\<lambda>a b. cmp a b \<le> 0) (insertBy cmp x xs)"
proof (induction xs)
  case Nil
  then show ?case by simp
next
  case (Cons y ys)
  show ?case
  proof (cases "cmp x y \<le> 0")
    case True
    with Cons.prems trans have "\<forall>z\<in>set ys. cmp x z \<le> 0" by auto
    with True Cons.prems show ?thesis by simp
  next
    case False
    with total have "cmp y x \<le> 0" by blast
    with False Cons show ?thesis by (auto simp: set_insertBy)
  qed
qed

lemma sorted_sortBy:
  assumes total: "\<And>a b. cmp a b \<le> 0 \<or> cmp b a \<le> 0"
    and trans: "\<And>a b c. cmp a b \<le> 0 \<Longrightarrow> cmp b c \<le> 0 \<Longrightarrow> cmp a c \<le> 0"
  shows "sorted_wrt (\<lambda>a b. cmp a b \<le> 0) (sortBy cmp xs)"
proof (induction xs)
  case Nil
  then show ?case by (simp add: sortBy_def)
next
  case (Cons x xs)
  have "sortBy cmp (x # xs) = insertBy cmp x (sortBy cmp xs)" by (simp add: sortBy_def)
  with sorted_insertBy[OF total trans Cons] show ?case by simp
qed

lemma compareMeta_le_iff:
  "compareMeta a b \<le> 0 \<longleftrightarrow>
     length (am_values b) < length (am_values a)
     \<or> (length (am_values a) = length (am_values b) \<and> am_order a \<le> am_order b)"
  by (auto simp: compareMeta_def Let_def)

lemma sorted_compareMeta: "sorted_wrt (\<lambda>a b. compareMeta a b \<le> 0) (sortBy compareMeta xs)"
  by (rule sorted_sortBy) (auto simp: compareMeta_le_iff)

lemma sorted_wrt_distinct:
  "sorted_wrt P xs \<Longrightarrow> distinct (map f xs) \<Longrightarrow> sorted_wrt (\<lambda>a b. P a b \<and> f a \<noteq> f b) xs"
  by (induction xs) auto


lemma aggregated_values_distinct:
  "m \<in> snd ` set (aggregated obs) \<Longrightarrow> distinct (am_values m)"
  using distinct_firstOccurrences[of "\<lambda>v. v"]
  by (auto simp: aggregated_def aggregatedEntry_def)

lemma aggregated_card:
  "m \<in> snd ` set (aggregated obs) \<Longrightarrow> card (set (am_values m)) = length (am_values m)"
  by (simp add: aggregated_values_distinct distinct_card)

lemma aggregated_orders: "map am_order (map snd (aggregated obs)) = [0..<length (aspectKeys obs)]"
proof -
  have "map am_order (map snd (aggregated obs)) = map fst (enumerate 0 (aspectKeys obs))"
    by (simp add: aggregated_def aggregatedEntry_def comp_def)
  then show ?thesis by simp
qed

lemma filters_composed:
  "filter (\<lambda>m. toLowerCase (am_originalName m) \<notin> set deniedAspectNames)
     (filter (\<lambda>m. length (am_originalName m) \<le> 30 \<and> length (am_values m) \<le> 50)
       (filter (\<lambda>m. length (am_values m) > 1) xs))
   = filter passesFilters xs"
  by (induction xs) (auto simp: passesFilters_def)

lemma selectedMetas_eq:
  "selectedMetas items =
     take 3 (sortBy compareMeta (filter passesFilters (map snd (aggregated (observedAspects items)))))"
  by (simp only: selectedMetas_def aspectTable_aggregated filters_composed)

lemma passesFilters_qualifies:
  "m \<in> snd ` set (aggregated obs) \<Longrightarrow> passesFilters m \<longleftrightarrow> qualifies m"
  by (auto simp: passesFilters_def qualifies_def aggregated_card)

lemma ranked_strictly:
  fixes obs
  defines "L \<equiv> sortBy compareMeta (filter passesFilters (map snd (aggregated obs)))"
  shows "sorted_wrt ranksBefore L"
proof -
  have sub: "set L \<subseteq> snd ` set (aggregated obs)"
    by (auto simp: L_def set_sortBy)
  have "distinct (map am_order (map snd (aggregated obs)))"
    by (simp only: aggregated_orders distinct_upt)
  then have "distinct (map am_order (filter passesFilters (map snd (aggregated obs))))"
    by (rule distinct_map_filter)
  then have d: "distinct (map am_order L)"
    by (simp only: L_def distinct_map_sortBy)
  have "sorted_wrt (\<lambda>a b. compareMeta a b \<le> 0) L"
    unfolding L_def by (rule sorted_compareMeta)
  from sorted_wrt_distinct[OF this d]
  have s: "sorted_wrt (\<lambda>a b. compareMeta a b \<le> 0 \<and> am_order a \<noteq> am_order b) L" .
  show ?thesis
  proof (rule sorted_wrt_mono_rel[OF _ s])
    fix a b
    assume "a \<in> set L" "b \<in> set L"
    assume "compareMeta a b \<le> 0 \<and> am_order a \<noteq> am_order b"
    moreover from sub \<open>a \<in> set L\<close> have "card (set (am_values a)) = length (am_values a)"
      by (auto intro: aggregated_card)
    moreover from sub \<open>b \<in> set L\<close> have "card (set (am_values b)) = length (am_values b)"
      by (auto intro: aggregated_card)
    ultimately show "ranksBefore a b"
      by (auto simp: ranksBefore_def compareMeta_le_iff)
  qed
qed


lemma top_of_sorted:
  assumes "sorted_wrt R L" and "m \<in> set L" and "m \<notin> set (take n L)"
  shows "length (take n L) = n \<and> (\<forall>s\<in>set (take n L). R s m)"
proof -
  have "set L = set (take n L) \<union> set (drop n L)"
    by (metis append_take_drop_id set_append)
  with assms(2,3) have d: "m \<in> set (drop n L)" by blast
  then have "drop n L \<noteq> []" by auto
  then have "n < length L" by simp
  then have "length (take n L) = n" by simp
  moreover have "sorted_wrt R (take n L @ drop n L)" using assms(1) by simp
  then have "\<forall>s\<in>set (take n L). \<forall>y\<in>set (drop n L). R s y"
    by (simp only: sorted_wrt_append) blast
  ultimately show ?thesis using d by blast
qed

text \<open>The ranking is a strict order on the aggregated entries, so the sorted array does not
  depend on the sorting algorithm.\<close>

lemma strictly_sorted_unique:
  assumes asym: "\<And>a b. R a b \<Longrightarrow> \<not> R b a"
  shows "sorted_wrt R xs \<Longrightarrow> sorted_wrt R ys \<Longrightarrow> set xs = set ys \<Longrightarrow> xs = ys"
proof (induction xs arbitrary: ys)
  case Nil
  then show ?case by simp
next
  case (Cons x xs)
  from Cons.prems(3) obtain y ys' where ys: "ys = y # ys'" by (cases ys) auto
  have irrefl: "\<And>a. \<not> R a a" using asym by blast
  have x_notin: "x \<notin> set xs" using Cons.prems(1) irrefl by auto
  have y_notin: "y \<notin> set ys'" using Cons.prems(2) irrefl unfolding ys by auto
  have "x = y"
  proof (rule ccontr)
    assume ne: "x \<noteq> y"
    with Cons.prems(3) ys have "x \<in> set ys'" "y \<in> set xs" by auto
    with Cons.prems(1,2) ys have "R y x" "R x y" by auto
    with asym show False by blast
  qed
  moreover from this Cons.prems(3) ys x_notin y_notin have "set xs = set ys'" by auto
  moreover have "sorted_wrt R xs" "sorted_wrt R ys'" using Cons.prems(1,2) ys by auto
  ultimately show ?case using Cons.IH[of ys'] ys by simp
qed

lemma ranking_unique:
  assumes "sorted_wrt ranksBefore ys"
    and "set ys = set (filter passesFilters (map snd (aggregated obs)))"
  shows "ys = sortBy compareMeta (filter passesFilters (map snd (aggregated obs)))"
proof (rule strictly_sorted_unique[of ranksBefore])
  show "\<And>a b. ranksBefore a b \<Longrightarrow> \<not> ranksBefore b a"
    by (auto simp: ranksBefore_def)
  show "sorted_wrt ranksBefore ys" by (rule assms(1))
  show "sorted_wrt ranksBefore (sortBy compareMeta (filter passesFilters (map snd (aggregated obs))))"
    by (rule ranked_strictly)
  show "set ys = set (sortBy compareMeta (filter passesFilters (map snd (aggregated obs))))"
    using assms(2) by (simp only: set_sortBy)
qed

text \<open>
  Claim C2. For a group payload with at least one member, \<open>optionsOrder\<close> holds the
  original names of the selected aspects. The aspects are aggregated over all members
  without regard to the case of the name, under the spelling seen first. The selected
  ones are at most 3; each of them has more than one different normalized value, a name
  of at most 30 characters, at most 50 different values, and a lower-cased name that is
  not on the deny-list; they stand in the order of falling number of different values
  and, among equals, of first appearance; and every aspect that qualifies in this way
  and was not selected ranks behind all three selected ones.
\<close>

theorem optionsOrder_spec:
  assumes "collectEbayItems grp = items" and "items \<noteq> []"
  shows "mapEbayItemGroup grp = Inr \<lparr>mg_optionsOrder = map am_originalName (selectedMetas items)\<rparr>
   \<and> length (selectedMetas items) \<le> 3
   \<and> sorted_wrt ranksBefore (selectedMetas items)
   \<and> (\<forall>m\<in>set (selectedMetas items).
         m \<in> snd ` set (aggregated (observedAspects items)) \<and> qualifies m)
   \<and> (\<forall>m\<in>snd ` set (aggregated (observedAspects items)).
         qualifies m \<and> m \<notin> set (selectedMetas items) \<longrightarrow>
           length (selectedMetas items) = 3
           \<and> (\<forall>s\<in>set (selectedMetas items). ranksBefore s m))"
proof -
  let ?A = "map snd (aggregated (observedAspects items))"
  let ?L = "sortBy compareMeta (filter passesFilters ?A)"
  have sel: "selectedMetas items = take 3 ?L" by (rule selectedMetas_eq)
  have setL: "set ?L = {m \<in> snd ` set (aggregated (observedAspects items)). qualifies m}"
    using passesFilters_qualifies[of _ "observedAspects items"] by (auto simp: set_sortBy)
  have sorted: "sorted_wrt ranksBefore ?L" by (rule ranked_strictly)
  have A: "mapEbayItemGroup grp = Inr \<lparr>mg_optionsOrder = map am_originalName (selectedMetas items)\<rparr>"
    using assms by (simp add: mapEbayItemGroup_def optionNames_def)
  have B: "length (selectedMetas items) \<le> 3" by (simp add: sel)
  have C: "sorted_wrt ranksBefore (selectedMetas items)"
    unfolding sel using sorted by (rule sorted_wrt_take)
  have D: "\<forall>m\<in>set (selectedMetas items).
         m \<in> snd ` set (aggregated (observedAspects items)) \<and> qualifies m"
  proof
    fix m
    assume "m \<in> set (selectedMetas items)"
    then have "m \<in> set ?L" unfolding sel by (rule in_set_takeD)
    with setL show "m \<in> snd ` set (aggregated (observedAspects items)) \<and> qualifies m" by blast
  qed
  have E: "\<forall>m\<in>snd ` set (aggregated (observedAspects items)).
         qualifies m \<and> m \<notin> set (selectedMetas items) \<longrightarrow>
           length (selectedMetas items) = 3
           \<and> (\<forall>s\<in>set (selectedMetas items). ranksBefore s m)"
  proof (intro ballI impI)
    fix m
    assume "m \<in> snd ` set (aggregated (observedAspects items))"
      and "qualifies m \<and> m \<notin> set (selectedMetas items)"
    with setL have "m \<in> set ?L" "m \<notin> set (take 3 ?L)" by (auto simp: sel)
    from top_of_sorted[OF sorted this]
    show "length (selectedMetas items) = 3 \<and> (\<forall>s\<in>set (selectedMetas items). ranksBefore s m)"
      unfolding sel by blast
  qed
  show ?thesis by (rule conjI[OF A conjI[OF B conjI[OF C conjI[OF D E]]]])
qed


text \<open>
  In the example group \<open>Color\<close> has three values; \<open>Size\<close>, \<open>Fit\<close> and \<open>Sleeve\<close> have
  two and were seen in this order, so that \<open>Sleeve\<close> qualifies and is not selected;
  \<open>Brand\<close> varies but is denied, \<open>Material\<close> has one value, and the name of the last
  aspect is too long.
\<close>

theorem optionsOrder_spec_witness:
  "collectEbayItems (Some shirtGroup) \<noteq> []
   \<and> mapEbayItemGroup (Some shirtGroup) = Inr \<lparr>mg_optionsOrder = [''Color'', ''Size'', ''Fit'']\<rparr>
   \<and> map am_values (selectedMetas (collectEbayItems (Some shirtGroup)))
       = [[''Red'', ''Blue'', ''Green''], [''M'', ''L''], [''Slim'', ''Regular'']]
   \<and> sorted_wrt ranksBefore (selectedMetas (collectEbayItems (Some shirtGroup)))
   \<and> qualifies sleeveMeta
   \<and> sleeveMeta \<notin> set (selectedMetas (collectEbayItems (Some shirtGroup)))
   \<and> length (selectedMetas (collectEbayItems (Some shirtGroup))) = 3
   \<and> list_all (\<lambda>s. ranksBefore s sleeveMeta) (selectedMetas (collectEbayItems (Some shirtGroup)))"
proof -
  have n: "collectEbayItems (Some shirtGroup) \<noteq> []"
    by code_simp
  have s: "map am_originalName (selectedMetas (collectEbayItems (Some shirtGroup)))
       = [''Color'', ''Size'', ''Fit'']"
    "map am_values (selectedMetas (collectEbayItems (Some shirtGroup)))
       = [[''Red'', ''Blue'', ''Green''], [''M'', ''L''], [''Slim'', ''Regular'']]"
    by code_simp+
  have a: "sleeveMeta \<in> snd ` set (aggregated (observedAspects (collectEbayItems (Some shirtGroup))))"
    by code_simp
  have q: "qualifies sleeveMeta \<and> sleeveMeta \<notin> set (selectedMetas (collectEbayItems (Some shirtGroup)))"
    by code_simp
  note T = optionsOrder_spec[OF refl n]
  from T have r: "length (selectedMetas (collectEbayItems (Some shirtGroup))) = 3
      \<and> (\<forall>s\<in>set (selectedMetas (collectEbayItems (Some shirtGroup))). ranksBefore s sleeveMeta)"
    using a q by blast
  from T n s q r show ?thesis by (simp add: list_all_iff)
qed

end
